theory Spec2Isabelle
  imports Main
begin

section \<open>Dates\<close>

text \<open>
  A JavaScript \<open>Date\<close> is its time value: an integral number of milliseconds since the
  Unix epoch, or \<open>NaN\<close> for an invalid date. It is modelled as \<open>int option\<close>, with
  \<open>None\<close> for the invalid date. The relational operator \<open>a > b\<close> on two dates compares
  the time values as numbers and is false as soon as one of them is \<open>NaN\<close>.
\<close>

type_synonym date = "int option"

definition dateGt :: "date \<Rightarrow> date \<Rightarrow> bool" where
  "dateGt a b = (case a of None \<Rightarrow> False
                 | Some x \<Rightarrow> (case b of None \<Rightarrow> False | Some y \<Rightarrow> y < x))"

text \<open>
  The constructor \<open>new Date(s)\<close> belongs to the language runtime, not to the repository, so
  the functions below take it as a parameter \<open>newDate :: string \<Rightarrow> date\<close> and the general
  theorems hold for every such parser. For concrete runs, \<open>jsDate\<close> reads the format that
  \<open>toISOString\<close> writes, \<open>YYYY-MM-DDTHH:mm:ss.sssZ\<close> with a four-digit year, into
  milliseconds since the epoch (days from the civil date, then the time of day), and takes
  every other string for an invalid date. The runtime reads more formats than this one;
  the concrete runs only use strings of this format and the string \<open>nope\<close>.
\<close>

definition isDigit :: "char \<Rightarrow> bool" where
  "isDigit c = (48 \<le> (of_char c :: nat) \<and> (of_char c :: nat) \<le> 57)"

fun digitsVal :: "nat \<Rightarrow> string \<Rightarrow> nat option" where
  "digitsVal acc [] = Some acc"
| "digitsVal acc (c # cs) =
     (if isDigit c then digitsVal (10 * acc + (of_char c - 48)) cs else None)"

definition field :: "string \<Rightarrow> nat \<Rightarrow> nat \<Rightarrow> int option" where
  "field s i n = map_option int (digitsVal 0 (take n (drop i s)))"

definition isLeap :: "int \<Rightarrow> bool" where
  "isLeap y = (if y mod 400 = 0 then True else if y mod 100 = 0 then False else y mod 4 = 0)"

definition daysInMonth :: "int \<Rightarrow> int \<Rightarrow> int" where
  "daysInMonth y m =
     (if m = 2 then (if isLeap y then 29 else 28)
      else if m = 4 then 30 else if m = 6 then 30 else if m = 9 then 30
      else if m = 11 then 30 else 31)"

definition makeDay :: "int \<Rightarrow> int \<Rightarrow> int \<Rightarrow> int" where
  "makeDay y m d =
     (let y' = (if m \<le> 2 then y - 1 else y);
          era = y' div 400;
          yoe = y' - era * 400;
          mp = (if 2 < m then m - 3 else m + 9);
          doy = (153 * mp + 2) div 5 + d - 1;
          doe = yoe * 365 + yoe div 4 - yoe div 100 + doy
      in era * 146097 + doe - 719468)"

definition makeDate :: "int \<Rightarrow> int \<Rightarrow> int \<Rightarrow> int \<Rightarrow> int \<Rightarrow> int \<Rightarrow> int \<Rightarrow> date" where
  "makeDate y mo d h mi sec ms =
     (if 1 \<le> mo \<and> mo \<le> 12 \<and> 1 \<le> d \<and> d \<le> daysInMonth y mo
         \<and> h \<le> 23 \<and> mi \<le> 59 \<and> sec \<le> 59
      then Some (makeDay y mo d * 86400000 + h * 3600000 + mi * 60000 + sec * 1000 + ms)
      else None)"

definition jsDate :: "string \<Rightarrow> date" where
  "jsDate s =
     (if length s = 24 \<and> s ! 4 = CHR ''-'' \<and> s ! 7 = CHR ''-'' \<and> s ! 10 = CHR ''T''
         \<and> s ! 13 = CHR '':'' \<and> s ! 16 = CHR '':'' \<and> s ! 19 = CHR ''.''
         \<and> s ! 23 = CHR ''Z''
      then (case field s 0 4 of None \<Rightarrow> None | Some y \<Rightarrow>
            (case field s 5 2 of None \<Rightarrow> None | Some mo \<Rightarrow>
            (case field s 8 2 of None \<Rightarrow> None | Some d \<Rightarrow>
            (case field s 11 2 of None \<Rightarrow> None | Some h \<Rightarrow>
            (case field s 14 2 of None \<Rightarrow> None | Some mi \<Rightarrow>
            (case field s 17 2 of None \<Rightarrow> None | Some sec \<Rightarrow>
            (case field s 20 3 of None \<Rightarrow> None | Some ms \<Rightarrow>
               makeDate y mo d h mi sec ms)))))))
      else None)"

section \<open>The decision function (lib/diff)\<close>

record params =
  updatedAtIso :: "string option"
  lastSyncIso :: "string option"
  seenAtIso :: "string option"

text \<open>
  \<open>x || d\<close> on an optional string: \<open>undefined\<close> and the empty string are falsy.
  The declaration types \<open>lastSyncIso\<close> as a plain string; the compiled function reads it
  through the same \<open>||\<close> as \<open>seenAtIso\<close>, so both are optional here.
\<close>

definition orElse :: "string option \<Rightarrow> string \<Rightarrow> string" where
  "orElse x d = (case x of None \<Rightarrow> d | Some s \<Rightarrow> if s = [] then d else s)"

definition epochIso :: string where
  "epochIso = ''1970-01-01T00:00:00.000Z''"

definition shouldEmit :: "(string \<Rightarrow> date) \<Rightarrow> params \<Rightarrow> bool" where
  "shouldEmit newDate p =
     (case updatedAtIso p of
        None \<Rightarrow> False
      | Some u \<Rightarrow>
          if u = [] then False
          else
            let updatedAt = newDate u in
            if updatedAt = None then False
            else
              let lastSync = newDate (orElse (lastSyncIso p) epochIso);
                  seenAt = newDate (orElse (seenAtIso p) epochIso)
              in dateGt updatedAt lastSync \<and> dateGt updatedAt seenAt)"

section \<open>The polling trigger (nodes/GlobalWorkflowUpdatedTrigger)\<close>

subsection \<open>Data\<close>

text \<open>
  A listed workflow. Its \<open>id\<close> is a string or a number and may be missing (\<open>null\<close> or
  \<open>undefined\<close>); the name and the two spellings of the update time may be missing too.
  An element of the listing can itself be \<open>null\<close>, so the listing is a list of optional
  workflows.
\<close>

datatype wfid = IdStr string | IdNum int

record wf =
  wf_id :: "wfid option"
  wf_name :: "string option"
  wf_updatedAt :: "string option"
  wf_updated_at :: "string option"

text \<open>
  \<open>String(wf.id)\<close>: a string is kept, an integral number is written in decimal (as the
  runtime does below \<open>10^21\<close>).
\<close>

fun showNat :: "nat \<Rightarrow> string" where
  "showNat n =
     (if n < 10 then [char_of (48 + n)]
      else showNat (n div 10) @ [char_of (48 + n mod 10)])"

definition String :: "wfid \<Rightarrow> string" where
  "String i = (case i of IdStr s \<Rightarrow> s
               | IdNum n \<Rightarrow> if n < 0 then CHR ''-'' # showNat (nat (- n)) else showNat (nat n))"

text \<open>
  A response body of the REST API, as far as the trigger looks into it: \<open>x?.data ?? x\<close>
  and the truthiness test. An object is the list of its bindings; a key is read at its
  first binding.
\<close>

datatype json =
    JNull
  | JBool bool
  | JNum int
  | JStr string
  | JArr "json list"
  | JObj "(string \<times> json) list"

fun dataOr :: "json \<Rightarrow> json" where
  "dataOr (JObj kvs) =
     (case map_of kvs ''data'' of
        None \<Rightarrow> JObj kvs
      | Some v \<Rightarrow> if v = JNull then JObj kvs else v)"
| "dataOr x = x"

fun truthy :: "json \<Rightarrow> bool" where
  "truthy JNull = False"
| "truthy (JBool b) = b"
| "truthy (JNum n) = (n \<noteq> 0)"
| "truthy (JStr s) = (s \<noteq> [])"
| "truthy (JArr xs) = True"
| "truthy (JObj kvs) = True"

text \<open>
  The \<open>json\<close> of an emitted item: \<open>{ id, name, updatedAt }\<close> and, when it was attached,
  \<open>workflow\<close>.
\<close>

record payload =
  json_id :: string
  json_name :: string
  json_updatedAt :: string
  json_workflow :: "json option"

text \<open>
  The persisted static data, after the defaults of \<open>trigger\<close> have been applied.
  \<open>seenMap\<close> is a plain object used as a dictionary: a key that was never written reads
  as \<open>undefined\<close>. The names an object inherits from its prototype are left out.
\<close>

record staticData =
  lastSync :: string
  seenMap :: "string \<rightharpoonup> string"

text \<open>
  The node parameters the loop reads. The compiled regular expression is a predicate on
  names, absent when the pattern is empty. The two numbers are taken to be integers.
\<close>

record cfg =
  excludeRegex :: "(string \<Rightarrow> bool) option"
  emitFullWorkflow :: bool
  maxPerCycle :: int
  intervalSeconds :: int

text \<open>
  What the outside world answers during one iteration of the loop: the list that
  \<open>getAllWorkflows\<close> hands to the \<open>for\<close> loop, or \<open>Inl\<close> of the message when the
  request is rejected or its result cannot be iterated; the response to the detail request
  for an identifier (one answer per identifier within a pass), \<open>Inl\<close> when it is
  rejected; the string \<open>new Date().toISOString()\<close> yields after the emission; and whether
  \<open>closeFunction\<close> has been called by the end of the iteration's sleep.
\<close>

record env =
  getAllWorkflows :: "string + wf option list"
  requestJson :: "string \<Rightarrow> string + json"
  nowIso :: string
  closeRequested :: bool

text \<open>
  What the loop does to the outside world: a call of \<open>this.emit([toEmit])\<close>, a line on
  \<open>console.error\<close>, a sleep of so many milliseconds. The sink is the host's and is
  taken to return normally.
\<close>

datatype event = Emit "payload list list" | LogError string | Sleep int

subsection \<open>One iteration\<close>

definition getWorkflow :: "env \<Rightarrow> string \<Rightarrow> string + json" where
  "getWorkflow e i = (case requestJson e i of Inl err \<Rightarrow> Inl err | Inr res \<Rightarrow> Inr (dataOr res))"

text \<open>
  The body of \<open>if (shouldEmit(...))\<close> up to the \<open>push\<close>: the payload, with the workflow
  attached when it was asked for, fetched and truthy. A failed fetch is swallowed.
\<close>

definition mkPayload :: "cfg \<Rightarrow> env \<Rightarrow> string \<Rightarrow> string \<Rightarrow> string \<Rightarrow> payload" where
  "mkPayload c e i n u =
     (let p = \<lparr>json_id = i, json_name = n, json_updatedAt = u, json_workflow = None\<rparr>
      in if emitFullWorkflow c
         then (case getWorkflow e i of
                 Inl err \<Rightarrow> p
               | Inr full \<Rightarrow>
                   let fullData = dataOr full
                   in if truthy fullData then p\<lparr>json_workflow := Some fullData\<rparr> else p)
         else p)"

text \<open>
  The body of the \<open>for (const wf of list)\<close> loop up to the \<open>push\<close>, for one element
  of the listing: \<open>None\<close> when the element is skipped (\<open>continue\<close>) or the decision is
  negative, otherwise the payload that is pushed. \<open>lastSyncDateIso\<close> was read before the
  loop; \<open>sd\<close> is the static data, which the loop reads and does not write. In
  \<open>updatedAtIso!\<close> the string is there, because \<open>shouldEmit\<close> refuses a missing one.
\<close>

definition wfName :: "wf \<Rightarrow> string \<Rightarrow> string" where
  "wfName w i = (case wf_name w of None \<Rightarrow> ''workflow-'' @ i | Some nm \<Rightarrow> nm)"

definition excluded :: "cfg \<Rightarrow> string \<Rightarrow> bool" where
  "excluded c n = (case excludeRegex c of None \<Rightarrow> False | Some test \<Rightarrow> test n)"

definition wfUpdatedAtIso :: "wf \<Rightarrow> string option" where
  "wfUpdatedAtIso w = (case wf_updatedAt w of None \<Rightarrow> wf_updated_at w | Some u \<Rightarrow> Some u)"

definition visit :: "(string \<Rightarrow> date) \<Rightarrow> cfg \<Rightarrow> env \<Rightarrow> staticData \<Rightarrow> string \<Rightarrow> wf option
                     \<Rightarrow> payload option" where
  "visit newDate c e sd lastSyncDateIso x =
     (case x of
        None \<Rightarrow> None
      | Some w \<Rightarrow>
          (case wf_id w of
             None \<Rightarrow> None
           | Some wid \<Rightarrow>
               let i = String wid;
                   n = wfName w i
               in if excluded c n then None
                  else
                    let updatedAtIso' = wfUpdatedAtIso w;
                        seenAtIso' = seenMap sd i
                    in if shouldEmit newDate
                            \<lparr>updatedAtIso = updatedAtIso',
                             lastSyncIso = Some lastSyncDateIso,
                             seenAtIso = seenAtIso'\<rparr>
                       then Some (mkPayload c e i n
                                    (case updatedAtIso' of None \<Rightarrow> [] | Some u \<Rightarrow> u))
                       else None))"

text \<open>
  The loop itself: \<open>toEmit\<close> is the batch so far, and leaving the function without a
  recursive call is the \<open>break\<close>.
\<close>

fun scan :: "(string \<Rightarrow> date) \<Rightarrow> cfg \<Rightarrow> env \<Rightarrow> staticData \<Rightarrow> string \<Rightarrow> payload list
             \<Rightarrow> wf option list \<Rightarrow> payload list" where
  "scan newDate c e sd lastSyncDateIso toEmit [] = toEmit"
| "scan newDate c e sd lastSyncDateIso toEmit (x # xs) =
     (case visit newDate c e sd lastSyncDateIso x of
        None \<Rightarrow> scan newDate c e sd lastSyncDateIso toEmit xs
      | Some p \<Rightarrow>
          let toEmit' = toEmit @ [p]
          in if 0 < maxPerCycle c \<and> maxPerCycle c \<le> int (length toEmit')
             then toEmit'
             else scan newDate c e sd lastSyncDateIso toEmit' xs)"

text \<open>
  The writes after the emission: \<open>lastSync\<close> becomes the wall-clock string, then the
  items are written to \<open>seenMap\<close> in batch order.
\<close>

definition persist :: "staticData \<Rightarrow> string \<Rightarrow> payload list \<Rightarrow> staticData" where
  "persist sd now toEmit =
     foldl (\<lambda>s item. s\<lparr>seenMap := (seenMap s)(json_id item \<mapsto> json_updatedAt item)\<rparr>)
           (sd\<lparr>lastSync := now\<rparr>) toEmit"

text \<open>The batch a cycle collects from a listing.\<close>

definition collect :: "(string \<Rightarrow> date) \<Rightarrow> cfg \<Rightarrow> env \<Rightarrow> staticData \<Rightarrow> wf option list
                       \<Rightarrow> payload list" where
  "collect newDate c e sd ws = scan newDate c e sd (lastSync sd) [] ws"

text \<open>
  The \<open>try\<close> block: \<open>Inl\<close> is the exception that reaches the \<open>catch\<close>. The listing
  is the only step that can throw, and it comes before any write.
\<close>

definition tryBlock :: "(string \<Rightarrow> date) \<Rightarrow> cfg \<Rightarrow> env \<Rightarrow> staticData
                        \<Rightarrow> string + (staticData \<times> event list)" where
  "tryBlock newDate c e sd =
     (case getAllWorkflows e of
        Inl err \<Rightarrow> Inl err
      | Inr ws \<Rightarrow>
          let toEmit = collect newDate c e sd ws
          in if toEmit \<noteq> []
             then Inr (persist sd (nowIso e) toEmit, [Emit [toEmit]])
             else Inr (sd, []))"

text \<open>One pass of the \<open>while\<close> body: the \<open>try\<close>/\<open>catch\<close>, then the sleep.\<close>

definition cycle :: "(string \<Rightarrow> date) \<Rightarrow> cfg \<Rightarrow> env \<Rightarrow> staticData \<Rightarrow> staticData \<times> event list" where
  "cycle newDate c e sd =
     (case tryBlock newDate c e sd of
        Inl err \<Rightarrow> (sd, [LogError err, Sleep (intervalSeconds c * 1000)])
      | Inr (sd', evs) \<Rightarrow> (sd', evs @ [Sleep (intervalSeconds c * 1000)]))"

subsection \<open>The loop\<close>

text \<open>
  \<open>while (active)\<close>: \<open>active\<close> starts true, so the first pass always runs; after each
  pass the flag is read again. The loop is driven by the answers of the outside world, one
  \<open>env\<close> per pass, and a finite list of them gives the finite prefix of the run.
\<close>

fun loop :: "(string \<Rightarrow> date) \<Rightarrow> cfg \<Rightarrow> env list \<Rightarrow> staticData \<Rightarrow> staticData \<times> event list" where
  "loop newDate c [] sd = (sd, [])"
| "loop newDate c (e # es) sd =
     (case cycle newDate c e sd of
        (sd', evs) \<Rightarrow>
          if closeRequested e then (sd', evs)
          else (case loop newDate c es sd' of (sd'', evs') \<Rightarrow> (sd'', evs @ evs')))"

text \<open>
  The static data after each pass of the loop, in order: the same recursion as \<open>loop\<close>,
  keeping every intermediate state instead of the last one.
\<close>

fun trajectory :: "(string \<Rightarrow> date) \<Rightarrow> cfg \<Rightarrow> env list \<Rightarrow> staticData \<Rightarrow> staticData list" where
  "trajectory newDate c [] sd = []"
| "trajectory newDate c (e # es) sd =
     (case cycle newDate c e sd of
        (sd', evs) \<Rightarrow> sd' # (if closeRequested e then [] else trajectory newDate c es sd'))"

text \<open>
  The order of two time strings, read as dates: \<open>a\<close> is not later than \<open>b\<close>. Both have
  to be valid dates.
\<close>

definition notEarlier :: "(string \<Rightarrow> date) \<Rightarrow> string \<Rightarrow> string \<Rightarrow> bool" where
  "notEarlier newDate a b =
     (case newDate a of None \<Rightarrow> False
      | Some x \<Rightarrow> (case newDate b of None \<Rightarrow> False | Some y \<Rightarrow> x \<le> y))"

section \<open>The data of the example runs\<close>

text \<open>
  The data of the concrete runs below: a workflow with a string identifier, no name and an
  \<open>updatedAt\<close>; a configuration with no exclusion pattern, full workflows asked for and a
  given batch cap; an outside world whose listing succeeds and whose detail requests all
  time out; one whose listing fails; and fresh static data.
\<close>

definition exWf :: "string \<Rightarrow> string \<Rightarrow> wf" where
  "exWf i u = \<lparr>wf_id = Some (IdStr i), wf_name = None, wf_updatedAt = Some u,
               wf_updated_at = None\<rparr>"

definition exItem :: "string \<Rightarrow> string \<Rightarrow> payload" where
  "exItem i u = \<lparr>json_id = i, json_name = ''workflow-'' @ i, json_updatedAt = u,
                 json_workflow = None\<rparr>"

definition exCfg :: "int \<Rightarrow> cfg" where
  "exCfg cap = \<lparr>excludeRegex = None, emitFullWorkflow = True, maxPerCycle = cap,
                intervalSeconds = 10\<rparr>"

definition exEnv :: "wf option list \<Rightarrow> string \<Rightarrow> env" where
  "exEnv ws now = \<lparr>getAllWorkflows = Inr ws, requestJson = (\<lambda>i. Inl ''timeout''),
                   nowIso = now, closeRequested = False\<rparr>"

definition exFail :: env where
  "exFail = \<lparr>getAllWorkflows = Inl ''ECONNREFUSED'', requestJson = (\<lambda>i. Inl ''timeout''),
             nowIso = ''2025-10-29T12:11:00.000Z'', closeRequested = False\<rparr>"

definition exSd :: "string \<Rightarrow> staticData" where
  "exSd l = \<lparr>lastSync = l, seenMap = Map.empty\<rparr>"

section \<open>The date reader at the strings of the examples\<close>

lemma jsDate_nope: "jsDate ''nope'' = None"
  by (simp add: jsDate_def)

lemma jsDate_epoch: "jsDate ''1970-01-01T00:00:00.000Z'' = Some 0"
  by code_simp

lemma jsDate_1200: "jsDate ''2025-10-29T12:00:00.000Z'' = Some 1761739200000"
  by code_simp

lemma jsDate_1205: "jsDate ''2025-10-29T12:05:00.000Z'' = Some 1761739500000"
  by code_simp

lemma jsDate_1206: "jsDate ''2025-10-29T12:06:00.000Z'' = Some 1761739560000"
  by code_simp

lemma jsDate_1210: "jsDate ''2025-10-29T12:10:00.000Z'' = Some 1761739800000"
  by code_simp

lemma jsDate_1211: "jsDate ''2025-10-29T12:11:00.000Z'' = Some 1761739860000"
  by code_simp

lemma jsDate_1215: "jsDate ''2025-10-29T12:15:00.000Z'' = Some 1761740100000"
  by code_simp

lemma jsDate_1220: "jsDate ''2025-10-29T12:20:00.000Z'' = Some 1761740400000"
  by code_simp

lemma jsDate_1221: "jsDate ''2025-10-29T12:21:00.000Z'' = Some 1761740460000"
  by code_simp

lemma jsDate_1230: "jsDate ''2025-10-29T12:30:00.000Z'' = Some 1761741000000"
  by code_simp

lemmas jsDates = jsDate_nope jsDate_epoch jsDate_1200 jsDate_1205 jsDate_1206 jsDate_1210
  jsDate_1211 jsDate_1215 jsDate_1220 jsDate_1221 jsDate_1230

section \<open>Reading the decision function\<close>

lemma shouldEmit_unfold:
  "shouldEmit newDate \<lparr>updatedAtIso = u, lastSyncIso = l, seenAtIso = s\<rparr> =
     (\<exists>raw t tl ts. u = Some raw \<and> raw \<noteq> [] \<and> newDate raw = Some t
        \<and> newDate (orElse l epochIso) = Some tl \<and> newDate (orElse s epochIso) = Some ts
        \<and> tl < t \<and> ts < t)"
  by (auto simp: shouldEmit_def dateGt_def Let_def split: option.splits)

lemma shouldEmit_seen_equal:
  "\<not> shouldEmit nd \<lparr>updatedAtIso = Some u, lastSyncIso = l, seenAtIso = Some u\<rparr>"
  unfolding shouldEmit_unfold by (auto simp: orElse_def)

lemma shouldEmit_later:
  assumes "shouldEmit nd \<lparr>updatedAtIso = Some u, lastSyncIso = Some l, seenAtIso = s\<rparr>"
    and "l \<noteq> []"
  shows "dateGt (nd u) (nd l)"
  using assms unfolding shouldEmit_unfold by (auto simp: orElse_def dateGt_def)

section \<open>Reading the scan\<close>

lemma scan_eq:
  "scan nd c e sd l acc ws =
     acc @ (if 0 < maxPerCycle c
            then take (max 1 (nat (maxPerCycle c) - length acc)) (List.map_filter (visit nd c e sd l) ws)
            else List.map_filter (visit nd c e sd l) ws)"
proof (induction ws arbitrary: acc)
  case Nil
  then show ?case by (simp add: List.map_filter_simps)
next
  case (Cons x xs)
  show ?case
  proof (cases "visit nd c e sd l x")
    case None
    then show ?thesis using Cons.IH[of acc] by (simp add: List.map_filter_simps)
  next
    case (Some p)
    show ?thesis
    proof (cases "0 < maxPerCycle c \<and> maxPerCycle c \<le> int (length acc) + 1")
      case True
      then have "max 1 (nat (maxPerCycle c) - length acc) = 1" by auto
      with True Some show ?thesis by (simp add: List.map_filter_simps)
    next
      case False
      show ?thesis
      proof (cases "0 < maxPerCycle c")
        case True
        with False have "max 1 (nat (maxPerCycle c) - length acc) = Suc (max 1 (nat (maxPerCycle c) - Suc (length acc)))"
          by auto
        with True False Some show ?thesis using Cons.IH[of "acc @ [p]"]
          by (simp add: List.map_filter_simps)
      next
        case F: False
        with Some show ?thesis using Cons.IH[of "acc @ [p]"]
          by (simp add: List.map_filter_simps)
      qed
    qed
  qed
qed

lemma collect_eq:
  "collect nd c e sd ws =
     (if 0 < maxPerCycle c
      then take (nat (maxPerCycle c)) (List.map_filter (visit nd c e sd (lastSync sd)) ws)
      else List.map_filter (visit nd c e sd (lastSync sd)) ws)"
proof -
  have "0 < maxPerCycle c \<Longrightarrow> max 1 (nat (maxPerCycle c)) = nat (maxPerCycle c)" by auto
  then show ?thesis by (simp add: collect_def scan_eq)
qed

lemma map_filter_app: "List.map_filter f (xs @ ys) = List.map_filter f xs @ List.map_filter f ys"
  by (simp add: List.map_filter_def)

lemma set_map_filter: "set (List.map_filter f xs) = {y. \<exists>x\<in>set xs. f x = Some y}"
  by (induction xs) (auto simp: List.map_filter_simps split: option.splits)

lemma map_filter_empty:
  assumes "\<And>x. x \<in> set xs \<Longrightarrow> f x = None"
  shows "List.map_filter f xs = []"
  using assms by (induction xs) (simp_all add: List.map_filter_simps)

lemma map_filter_rel:
  assumes "\<And>x. x \<in> set xs \<Longrightarrow> rel_option R (f x) (g x)"
  shows "list_all2 R (List.map_filter f xs) (List.map_filter g xs)"
  using assms
proof (induction xs)
  case Nil
  then show ?case by (simp add: List.map_filter_simps)
next
  case (Cons a xs)
  have "rel_option R (f a) (g a)" using Cons.prems by simp
  moreover have "list_all2 R (List.map_filter f xs) (List.map_filter g xs)"
    using Cons by simp
  ultimately show ?case
    by (cases "f a"; cases "g a") (simp_all add: List.map_filter_simps)
qed

lemma collect_subset:
  "set (collect nd c e sd ws) \<subseteq> set (List.map_filter (visit nd c e sd (lastSync sd)) ws)"
  by (auto simp: collect_eq dest: in_set_takeD)

lemma collect_reached:
  assumes "maxPerCycle c \<le> 0 \<or> int (length (collect nd c e sd pre)) < maxPerCycle c"
  shows "collect nd c e sd pre = List.map_filter (visit nd c e sd (lastSync sd)) pre"
proof (cases "0 < maxPerCycle c")
  case True
  let ?Q = "List.map_filter (visit nd c e sd (lastSync sd)) pre"
  from True assms have "min (length ?Q) (nat (maxPerCycle c)) < nat (maxPerCycle c)"
    by (simp add: collect_eq)
  then have "length ?Q \<le> nat (maxPerCycle c)" by simp
  with True show ?thesis by (simp add: collect_eq)
next
  case False
  then show ?thesis by (simp add: collect_eq)
qed

lemma reached_prefix:
  assumes "maxPerCycle c \<le> 0 \<or> int (length (collect nd c e sd (pre @ rest))) < maxPerCycle c"
  shows "maxPerCycle c \<le> 0 \<or> int (length (collect nd c e sd pre)) < maxPerCycle c"
proof (cases "0 < maxPerCycle c")
  case True
  have "length (collect nd c e sd pre) \<le> length (collect nd c e sd (pre @ rest))"
    using True by (simp add: collect_eq map_filter_app)
  with assms True show ?thesis by simp
next
  case False
  then show ?thesis by simp
qed

lemma collect_snoc:
  assumes "maxPerCycle c \<le> 0 \<or> int (length (collect nd c e sd pre)) < maxPerCycle c"
  shows "collect nd c e sd (pre @ [x]) =
           collect nd c e sd pre @ (case visit nd c e sd (lastSync sd) x of None \<Rightarrow> [] | Some p \<Rightarrow> [p])"
proof -
  have pre: "collect nd c e sd pre = List.map_filter (visit nd c e sd (lastSync sd)) pre"
    using assms by (rule collect_reached)
  show ?thesis
  proof (cases "0 < maxPerCycle c")
    case True
    with assms pre have "length (List.map_filter (visit nd c e sd (lastSync sd)) pre) < nat (maxPerCycle c)"
      by auto
    then show ?thesis using True pre
      by (auto simp: collect_eq map_filter_app List.map_filter_simps split: option.splits)
  next
    case False
    then show ?thesis
      by (auto simp: collect_eq map_filter_app List.map_filter_simps split: option.splits)
  qed
qed

lemma collect_nth:
  assumes "maxPerCycle c \<le> 0 \<or> int (length (collect nd c e sd pre)) < maxPerCycle c"
    and "visit nd c e sd (lastSync sd) x = Some p"
  shows "length (collect nd c e sd pre) < length (collect nd c e sd (pre @ x # post))
         \<and> collect nd c e sd (pre @ x # post) ! length (collect nd c e sd pre) = p"
proof -
  let ?Q = "List.map_filter (visit nd c e sd (lastSync sd))"
  have pre: "collect nd c e sd pre = ?Q pre"
    using assms(1) by (rule collect_reached)
  have Q: "?Q (pre @ x # post) = ?Q pre @ p # ?Q post"
    using assms(2) by (simp add: map_filter_app List.map_filter_simps)
  show ?thesis
  proof (cases "0 < maxPerCycle c")
    case True
    with assms(1) pre have "length (?Q pre) < nat (maxPerCycle c)" by auto
    then show ?thesis using True pre Q
      by (auto simp: collect_eq nth_append)
  next
    case False
    then show ?thesis using pre Q by (auto simp: collect_eq nth_append)
  qed
qed

lemma collect_stop:
  assumes "0 < maxPerCycle c" and "int (length (collect nd c e sd pre)) = maxPerCycle c"
  shows "collect nd c e sd (pre @ post) = collect nd c e sd pre"
proof -
  let ?Q = "List.map_filter (visit nd c e sd (lastSync sd))"
  from assms have "nat (maxPerCycle c) \<le> length (?Q pre)"
    by (auto simp: collect_eq split: if_splits)
  then show ?thesis using assms(1) by (simp add: collect_eq map_filter_app)
qed

lemma mkPayload_fields:
  "json_id (mkPayload c e i n u) = i"
  "json_name (mkPayload c e i n u) = n"
  "json_updatedAt (mkPayload c e i n u) = u"
  by (simp_all add: mkPayload_def Let_def split: sum.splits)

lemma mkPayload_failed:
  assumes "requestJson e i = Inl err"
  shows "mkPayload c e i n u =
           \<lparr>json_id = i, json_name = n, json_updatedAt = u, json_workflow = None\<rparr>"
proof -
  have "getWorkflow e i = Inl err" using assms by (simp add: getWorkflow_def)
  then show ?thesis by (simp add: mkPayload_def Let_def)
qed

lemma visit_Some:
  "visit nd c e sd l (Some w) =
     (case wf_id w of
        None \<Rightarrow> None
      | Some wid \<Rightarrow>
          if \<not> excluded c (wfName w (String wid))
             \<and> shouldEmit nd \<lparr>updatedAtIso = wfUpdatedAtIso w, lastSyncIso = Some l,
                               seenAtIso = seenMap sd (String wid)\<rparr>
          then Some (mkPayload c e (String wid) (wfName w (String wid))
                       (case wfUpdatedAtIso w of None \<Rightarrow> [] | Some u \<Rightarrow> u))
          else None)"
  by (simp add: visit_def Let_def split: option.splits)

lemma visit_SomeD:
  assumes "visit nd c e sd l x = Some q"
  shows "\<exists>w wid u. x = Some w \<and> wf_id w = Some wid \<and> wfUpdatedAtIso w = Some u \<and> u \<noteq> []
           \<and> json_id q = String wid \<and> json_updatedAt q = u
           \<and> shouldEmit nd \<lparr>updatedAtIso = Some u, lastSyncIso = Some l,
                             seenAtIso = seenMap sd (String wid)\<rparr>"
proof (cases x)
  case None
  with assms show ?thesis by (simp add: visit_def)
next
  case (Some w)
  with assms obtain wid where wid: "wf_id w = Some wid"
    and se: "shouldEmit nd \<lparr>updatedAtIso = wfUpdatedAtIso w, lastSyncIso = Some l,
                               seenAtIso = seenMap sd (String wid)\<rparr>"
    and q: "q = mkPayload c e (String wid) (wfName w (String wid))
                       (case wfUpdatedAtIso w of None \<Rightarrow> [] | Some u \<Rightarrow> u)"
    by (auto simp: visit_Some split: option.splits if_splits)
  from se obtain u where u: "wfUpdatedAtIso w = Some u" "u \<noteq> []"
    unfolding shouldEmit_unfold by auto
  with Some wid se q show ?thesis by (auto simp: mkPayload_fields)
qed

lemma visit_other_response:
  "rel_option (\<lambda>p q. json_id q = json_id p \<and> json_name q = json_name p
                  \<and> json_updatedAt q = json_updatedAt p \<and> (json_id p \<noteq> i \<longrightarrow> q = p))
     (visit nd c e sd l x) (visit nd c (e\<lparr>requestJson := (requestJson e)(i := r)\<rparr>) sd l x)"
proof (cases x)
  case None
  then show ?thesis by (simp add: visit_def)
next
  case (Some w)
  have "j \<noteq> i \<Longrightarrow> getWorkflow (e\<lparr>requestJson := (requestJson e)(i := r)\<rparr>) j = getWorkflow e j"
    for j by (simp add: getWorkflow_def)
  then have "j \<noteq> i \<Longrightarrow> mkPayload c (e\<lparr>requestJson := (requestJson e)(i := r)\<rparr>) j n u = mkPayload c e j n u"
    for j n u by (simp add: mkPayload_def Let_def)
  with Some show ?thesis
    by (auto simp: visit_Some mkPayload_fields split: option.splits)
qed

lemma collect_other_response:
  "list_all2 (\<lambda>p q. json_id q = json_id p \<and> json_name q = json_name p
                  \<and> json_updatedAt q = json_updatedAt p \<and> (json_id p \<noteq> i \<longrightarrow> q = p))
     (collect nd c e sd ws) (collect nd c (e\<lparr>requestJson := (requestJson e)(i := r)\<rparr>) sd ws)"
  by (auto simp: collect_eq intro!: list_all2_takeI map_filter_rel visit_other_response)

lemma quiet_when_nothing_later:
  assumes "l \<noteq> []" and "lastSync sd = l"
    and "\<And>w u. Some w \<in> set ws \<Longrightarrow> wfUpdatedAtIso w = Some u \<Longrightarrow> \<not> dateGt (nd u) (nd l)"
  shows "collect nd c e sd ws = []"
proof -
  have "visit nd c e sd (lastSync sd) x = None" if "x \<in> set ws" for x
  proof (rule ccontr)
    assume "visit nd c e sd (lastSync sd) x \<noteq> None"
    then obtain q where "visit nd c e sd (lastSync sd) x = Some q" by auto
    from visit_SomeD [OF this] obtain w wid u where
      x: "x = Some w" and u: "wfUpdatedAtIso w = Some u"
      and se: "shouldEmit nd \<lparr>updatedAtIso = Some u, lastSyncIso = Some (lastSync sd),
                             seenAtIso = seenMap sd (String wid)\<rparr>"
      by blast
    from se assms(1,2) have "dateGt (nd u) (nd l)" by (auto intro: shouldEmit_later)
    moreover have "\<not> dateGt (nd u) (nd l)" using assms(3) [of w u] that x u by simp
    ultimately show False by simp
  qed
  then have "List.map_filter (visit nd c e sd (lastSync sd)) ws = []"
    by (rule map_filter_empty)
  then show ?thesis by (simp add: collect_eq)
qed

lemma not_reported_again:
  assumes "q \<in> set (collect nd c e sd ws)"
    and "seenMap sd (json_id q) = Some (json_updatedAt q)"
  shows False
proof -
  from assms(1) collect_subset have "q \<in> set (List.map_filter (visit nd c e sd (lastSync sd)) ws)"
    by blast
  then obtain x where "visit nd c e sd (lastSync sd) x = Some q"
    by (auto simp: set_map_filter)
  from visit_SomeD [OF this] obtain wid u where
    "json_id q = String wid" "json_updatedAt q = u"
    "shouldEmit nd \<lparr>updatedAtIso = Some u, lastSyncIso = Some (lastSync sd),
                             seenAtIso = seenMap sd (String wid)\<rparr>"
    by blast
  with assms(2) show False by (simp add: shouldEmit_seen_equal)
qed

section \<open>Reading the writes, the cycle and the loop\<close>

lemma find_app:
  "find P (xs @ ys) = (case find P xs of None \<Rightarrow> find P ys | Some x \<Rightarrow> Some x)"
  by (induction xs) auto

lemma persist_lastSync: "lastSync (persist sd now items) = now"
proof -
  have *: "lastSync (foldl (\<lambda>s item. s\<lparr>seenMap := (seenMap s)(json_id item \<mapsto> json_updatedAt item)\<rparr>) s0 items) = lastSync s0" for s0
    by (induction items arbitrary: s0) auto
  show ?thesis by (simp add: persist_def *)
qed

lemma persist_seenMap:
  "seenMap (persist sd now items) k =
     (case find (\<lambda>p. json_id p = k) (rev items) of
        None \<Rightarrow> seenMap sd k
      | Some p \<Rightarrow> Some (json_updatedAt p))"
proof -
  let ?step = "\<lambda>s item. s\<lparr>seenMap := (seenMap s)(json_id item \<mapsto> json_updatedAt item)\<rparr>"
  have *: "seenMap (foldl ?step s0 items) k
        = (case find (\<lambda>p. json_id p = k) (rev items) of
             None \<Rightarrow> seenMap s0 k
           | Some p \<Rightarrow> Some (json_updatedAt p))" for s0
  proof (induction items arbitrary: s0)
    case Nil
    then show ?case by simp
  next
    case (Cons a items)
    have "seenMap (foldl ?step s0 (a # items)) k = seenMap (foldl ?step (?step s0 a) items) k"
      by simp
    also have "\<dots> = (case find (\<lambda>p. json_id p = k) (rev items) of
             None \<Rightarrow> seenMap (?step s0 a) k
           | Some p \<Rightarrow> Some (json_updatedAt p))"
      by (rule Cons.IH)
    also have "\<dots> = (case find (\<lambda>p. json_id p = k) (rev (a # items)) of
             None \<Rightarrow> seenMap s0 k
           | Some p \<Rightarrow> Some (json_updatedAt p))"
      by (simp add: find_app split: option.splits)
    finally show ?case .
  qed
  show ?thesis unfolding persist_def by (simp only: *) (simp split: option.splits)
qed

lemma find_rev_distinct:
  assumes "distinct (map f xs)" and "p \<in> set xs"
  shows "find (\<lambda>q. f q = f p) (rev xs) = Some p"
  using assms
proof (induction xs)
  case Nil
  then show ?case by simp
next
  case (Cons a xs)
  show ?case
  proof (cases "p = a")
    case True
    with Cons.prems have "find (\<lambda>q. f q = f p) (rev xs) = None"
      by (auto simp: find_None_iff image_iff)
    with True show ?thesis by (simp add: find_app)
  next
    case False
    with Cons have "find (\<lambda>q. f q = f p) (rev xs) = Some p" by auto
    then show ?thesis by (simp add: find_app)
  qed
qed

lemma cycle_emits:
  assumes "getAllWorkflows e = Inr ws" and "collect nd c e sd ws \<noteq> []"
  shows "cycle nd c e sd = (persist sd (nowIso e) (collect nd c e sd ws),
           [Emit [collect nd c e sd ws], Sleep (intervalSeconds c * 1000)])"
  using assms by (simp add: cycle_def tryBlock_def Let_def)

lemma cycle_quiet:
  assumes "getAllWorkflows e = Inr ws" and "collect nd c e sd ws = []"
  shows "cycle nd c e sd = (sd, [Sleep (intervalSeconds c * 1000)])"
  using assms by (simp add: cycle_def tryBlock_def Let_def)

lemma cycle_fails:
  assumes "getAllWorkflows e = Inl err"
  shows "cycle nd c e sd = (sd, [LogError err, Sleep (intervalSeconds c * 1000)])"
  using assms by (simp add: cycle_def tryBlock_def Let_def)

lemma cycle_lastSync:
  "lastSync (fst (cycle nd c e sd)) = lastSync sd \<or> lastSync (fst (cycle nd c e sd)) = nowIso e"
  by (simp add: cycle_def tryBlock_def Let_def persist_lastSync split: sum.splits)

lemma trajectory_lastSync:
  "lastSync ` set (trajectory nd c es sd) \<subseteq> insert (lastSync sd) (nowIso ` set es)"
proof (induction es arbitrary: sd)
  case Nil
  then show ?case by simp
next
  case (Cons e es)
  obtain sd' evs where cy: "cycle nd c e sd = (sd', evs)" by (cases "cycle nd c e sd")
  then have l': "lastSync sd' = lastSync sd \<or> lastSync sd' = nowIso e"
    using cycle_lastSync [of nd c e sd] by simp
  have "lastSync ` set (trajectory nd c es sd') \<subseteq> insert (lastSync sd') (nowIso ` set es)"
    by (rule Cons.IH)
  with l' cy show ?case by auto
qed

lemma trajectory_sorted:
  assumes "sorted_wrt (notEarlier nd) (lastSync sd # map nowIso es)"
  shows "sorted_wrt (\<lambda>a b. a = b \<or> notEarlier nd a b) (map lastSync (sd # trajectory nd c es sd))"
  using assms
proof (induction es arbitrary: sd)
  case Nil
  then show ?case by simp
next
  case (Cons e es)
  obtain sd' evs where cy: "cycle nd c e sd = (sd', evs)" by (cases "cycle nd c e sd")
  then have l': "lastSync sd' = lastSync sd \<or> lastSync sd' = nowIso e"
    using cycle_lastSync [of nd c e sd] by simp
  from Cons.prems have clock: "\<forall>n \<in> set (map nowIso (e # es)). notEarlier nd (lastSync sd) n"
    and rest: "sorted_wrt (notEarlier nd) (map nowIso (e # es))"
    by simp_all
  have step: "sorted_wrt (notEarlier nd) (lastSync sd' # map nowIso es)"
    using l' clock rest by auto
  have first: "lastSync sd = lastSync sd' \<or> notEarlier nd (lastSync sd) (lastSync sd')"
    using l' clock by auto
  show ?case
  proof (cases "closeRequested e")
    case True
    with cy first show ?thesis by simp
  next
    case False
    have ih: "sorted_wrt (\<lambda>a b. a = b \<or> notEarlier nd a b)
                (map lastSync (sd' # trajectory nd c es sd'))"
      using step by (rule Cons.IH)
    have sub: "lastSync ` set (trajectory nd c es sd') \<subseteq> insert (lastSync sd') (nowIso ` set es)"
      by (rule trajectory_lastSync)
    have "\<forall>y \<in> lastSync ` set (trajectory nd c es sd').
            lastSync sd = y \<or> notEarlier nd (lastSync sd) y"
    proof
      fix y assume "y \<in> lastSync ` set (trajectory nd c es sd')"
      with sub have "y = lastSync sd' \<or> y \<in> nowIso ` set es" by auto
      then show "lastSync sd = y \<or> notEarlier nd (lastSync sd) y"
        using first clock by auto
    qed
    with ih first cy False show ?thesis by auto
  qed
qed

lemma loop_trajectory: "fst (loop nd c es sd) = last (sd # trajectory nd c es sd)"
proof (induction es arbitrary: sd)
  case Nil
  then show ?case by simp
next
  case (Cons e es)
  obtain sd' evs where cy: "cycle nd c e sd = (sd', evs)" by (cases "cycle nd c e sd")
  obtain sd'' evs' where lp: "loop nd c es sd' = (sd'', evs')" by (cases "loop nd c es sd'")
  have "fst (loop nd c es sd') = last (sd' # trajectory nd c es sd')" by (rule Cons.IH)
  with lp have "sd'' = last (sd' # trajectory nd c es sd')" by simp
  with cy lp show ?case by simp
qed

section \<open>The example runs, step by step\<close>

lemma ex_simps:
  "maxPerCycle (exCfg cap) = cap" "intervalSeconds (exCfg cap) = 10"
  "emitFullWorkflow (exCfg cap) = True"
  "lastSync (exSd l) = l" "seenMap (exSd l) = Map.empty"
  "getAllWorkflows (exEnv ws now) = Inr ws" "nowIso (exEnv ws now) = now"
  "closeRequested (exEnv ws now) = False" "requestJson (exEnv ws now) i = Inl ''timeout''"
  "getAllWorkflows exFail = Inl ''ECONNREFUSED''" "closeRequested exFail = False"
  "json_id (exItem i u) = i" "json_updatedAt (exItem i u) = u"
  by (simp_all add: exCfg_def exSd_def exEnv_def exFail_def exItem_def)

lemma visit_ex:
  "visit jsDate (exCfg cap) (exEnv ws now) sd l (Some (exWf i u)) =
     (if shouldEmit jsDate \<lparr>updatedAtIso = Some u, lastSyncIso = Some l, seenAtIso = seenMap sd i\<rparr>
      then Some (exItem i u) else None)"
  by (simp add: visit_def exWf_def exCfg_def exEnv_def exItem_def String_def wfName_def
      excluded_def wfUpdatedAtIso_def mkPayload_def getWorkflow_def)

lemmas ex_eval = collect_eq List.map_filter_simps visit_ex shouldEmit_def dateGt_def orElse_def
  epochIso_def jsDates ex_simps

lemma exWf_simps:
  "wf_id (exWf i u) = Some (IdStr i)" "wfUpdatedAtIso (exWf i u) = Some u"
  "wfName (exWf i u) j = ''workflow-'' @ j" "String (IdStr i) = i"
  "excluded (exCfg cap) n = False"
  by (simp_all add: exWf_def wfUpdatedAtIso_def wfName_def String_def excluded_def exCfg_def)

lemma mkPayload_ex: "mkPayload (exCfg cap) (exEnv ws now) i (''workflow-'' @ i) u = exItem i u"
  by (simp add: mkPayload_failed [where err = "''timeout''"] ex_simps exItem_def)

lemma shouldEmit_ex_1210:
  "shouldEmit jsDate \<lparr>updatedAtIso = Some ''2025-10-29T12:10:00.000Z'',
                      lastSyncIso = Some ''1970-01-01T00:00:00.000Z'', seenAtIso = None\<rparr>"
  by (simp add: shouldEmit_def dateGt_def orElse_def epochIso_def jsDates)

lemma runA_batch:
  "collect jsDate (exCfg 0) (exEnv ws0 now) (exSd ''2025-10-29T12:05:00.000Z'')
     [Some (exWf ''a'' ''2025-10-29T12:10:00.000Z''), Some (exWf ''b'' ''2025-10-29T12:05:00.000Z'')]
   = [exItem ''a'' ''2025-10-29T12:10:00.000Z'']"
  by (simp add: ex_eval)

lemma notEarlier_ex:
  "notEarlier jsDate ''1970-01-01T00:00:00.000Z'' ''2025-10-29T12:11:00.000Z''"
  "notEarlier jsDate ''1970-01-01T00:00:00.000Z'' ''2025-10-29T12:21:00.000Z''"
  "notEarlier jsDate ''2025-10-29T12:11:00.000Z'' ''2025-10-29T12:11:00.000Z''"
  "notEarlier jsDate ''2025-10-29T12:11:00.000Z'' ''2025-10-29T12:21:00.000Z''"
  by (simp_all add: notEarlier_def jsDates)

lemma trajectory_ex:
  "map lastSync (trajectory jsDate (exCfg 0)
               [exEnv [Some (exWf ''a'' ''2025-10-29T12:10:00.000Z'')] ''2025-10-29T12:11:00.000Z'',
                exFail,
                exEnv [Some (exWf ''a'' ''2025-10-29T12:20:00.000Z'')] ''2025-10-29T12:21:00.000Z'']
               (exSd ''1970-01-01T00:00:00.000Z''))
   = [''2025-10-29T12:11:00.000Z'', ''2025-10-29T12:11:00.000Z'', ''2025-10-29T12:21:00.000Z'']"
proof -
  let ?e1 = "exEnv [Some (exWf ''a'' ''2025-10-29T12:10:00.000Z'')] ''2025-10-29T12:11:00.000Z''"
  let ?e3 = "exEnv [Some (exWf ''a'' ''2025-10-29T12:20:00.000Z'')] ''2025-10-29T12:21:00.000Z''"
  let ?sd = "exSd ''1970-01-01T00:00:00.000Z''"
  let ?sd1 = "persist ?sd ''2025-10-29T12:11:00.000Z'' [exItem ''a'' ''2025-10-29T12:10:00.000Z'']"
  let ?sd3 = "persist ?sd1 ''2025-10-29T12:21:00.000Z'' [exItem ''a'' ''2025-10-29T12:20:00.000Z'']"
  have b1: "collect jsDate (exCfg 0) ?e1 ?sd [Some (exWf ''a'' ''2025-10-29T12:10:00.000Z'')]
      = [exItem ''a'' ''2025-10-29T12:10:00.000Z'']"
    by (simp add: ex_eval)
  have c1: "cycle jsDate (exCfg 0) ?e1 ?sd = (?sd1, [Emit [[exItem ''a'' ''2025-10-29T12:10:00.000Z'']], Sleep 10000])"
    by (subst cycle_emits [where ws = "[Some (exWf ''a'' ''2025-10-29T12:10:00.000Z'')]"])
       (simp_all add: b1 ex_simps)
  have c2: "cycle jsDate (exCfg 0) exFail ?sd1 = (?sd1, [LogError ''ECONNREFUSED'', Sleep 10000])"
    by (simp add: cycle_fails [where err = "''ECONNREFUSED''"] ex_simps)
  have b3: "collect jsDate (exCfg 0) ?e3 ?sd1 [Some (exWf ''a'' ''2025-10-29T12:20:00.000Z'')]
      = [exItem ''a'' ''2025-10-29T12:20:00.000Z'']"
    by (simp add: ex_eval persist_lastSync persist_seenMap)
  have c3: "cycle jsDate (exCfg 0) ?e3 ?sd1 = (?sd3, [Emit [[exItem ''a'' ''2025-10-29T12:20:00.000Z'']], Sleep 10000])"
    by (subst cycle_emits [where ws = "[Some (exWf ''a'' ''2025-10-29T12:20:00.000Z'')]"])
       (simp_all add: b3 ex_simps)
  show ?thesis
    by (simp add: c1 c2 c3 persist_lastSync ex_simps)
qed

section \<open>The claims\<close>

subsection \<open>The decision function\<close>

text \<open>
  C1. \<open>shouldEmit\<close> returns true exactly when the update time is present, non-empty and
  parses to a valid time that is strictly later than the parsed \<open>lastSync\<close> watermark and
  strictly later than the parsed \<open>seenAt\<close> watermark (each read as the epoch string when
  absent or empty). In particular an absent, empty or unparseable update time gives false,
  and so does an update time equal to either watermark.
\<close>

theorem shouldEmit_iff:
  "(shouldEmit newDate \<lparr>updatedAtIso = u, lastSyncIso = l, seenAtIso = s\<rparr> =
     (\<exists>raw t tl ts. u = Some raw \<and> raw \<noteq> [] \<and> newDate raw = Some t
        \<and> newDate (orElse l epochIso) = Some tl \<and> newDate (orElse s epochIso) = Some ts
        \<and> tl < t \<and> ts < t))
   \<and> (u = None \<or> u = Some [] \<or> (\<exists>raw. u = Some raw \<and> newDate raw = None)
        \<longrightarrow> \<not> shouldEmit newDate \<lparr>updatedAtIso = u, lastSyncIso = l, seenAtIso = s\<rparr>)
   \<and> ((\<exists>raw. u = Some raw \<and> (newDate raw = newDate (orElse l epochIso)
                               \<or> newDate raw = newDate (orElse s epochIso)))
        \<longrightarrow> \<not> shouldEmit newDate \<lparr>updatedAtIso = u, lastSyncIso = l, seenAtIso = s\<rparr>)"
  unfolding shouldEmit_unfold by auto

text \<open>
  A run for C1, on the strings of the repository's own tests: an update time later than
  both watermarks is accepted, the string \<open>nope\<close> is refused, and so is an update time
  equal to \<open>lastSync\<close>.
\<close>

theorem shouldEmit_iff_witness:
  "shouldEmit jsDate \<lparr>updatedAtIso = Some ''2025-10-29T12:10:00.000Z'',
                      lastSyncIso = Some ''2025-10-29T12:05:00.000Z'',
                      seenAtIso = Some ''2025-10-29T12:06:00.000Z''\<rparr>
   \<and> \<not> shouldEmit jsDate \<lparr>updatedAtIso = Some ''nope'',
                      lastSyncIso = Some ''2025-10-29T12:00:00.000Z'',
                      seenAtIso = None\<rparr>
   \<and> \<not> shouldEmit jsDate \<lparr>updatedAtIso = Some ''2025-10-29T12:05:00.000Z'',
                      lastSyncIso = Some ''2025-10-29T12:05:00.000Z'',
                      seenAtIso = Some ''2025-10-29T12:00:00.000Z''\<rparr>"
  using shouldEmit_iff [where newDate = jsDate and u = "Some ''2025-10-29T12:10:00.000Z''"
          and l = "Some ''2025-10-29T12:05:00.000Z''" and s = "Some ''2025-10-29T12:06:00.000Z''"]
        shouldEmit_iff [where newDate = jsDate and u = "Some ''nope''"
          and l = "Some ''2025-10-29T12:00:00.000Z''" and s = None]
        shouldEmit_iff [where newDate = jsDate and u = "Some ''2025-10-29T12:05:00.000Z''"
          and l = "Some ''2025-10-29T12:05:00.000Z''" and s = "Some ''2025-10-29T12:00:00.000Z''"]
  by (simp add: orElse_def jsDate_nope jsDate_1200 jsDate_1205 jsDate_1206 jsDate_1210)

subsection \<open>A second cycle on the same listing\<close>

text \<open>
  C2, as the code has it. A first cycle emits a batch; a second one runs right after it on
  the same listing. If no update time of the listing is later than the wall-clock string
  the first cycle stored in \<open>lastSync\<close>, the second cycle emits nothing and leaves the
  static data alone. Whatever the clock: when the identifiers of the first batch are
  pairwise distinct, \<open>seenMap\<close> maps each of them to the \<open>updatedAt\<close> of its record, and a
  record whose identifier is mapped to its own \<open>updatedAt\<close> is not in the second batch,
  the strict comparison failing on equality.
\<close>

theorem second_cycle:
  assumes "getAllWorkflows e1 = Inr ws" and "getAllWorkflows e2 = Inr ws"
    and "collect newDate c e1 sd ws \<noteq> []"
  shows "(nowIso e1 \<noteq> []
          \<and> (\<forall>x\<in>set ws. \<forall>w u. x = Some w \<and> wfUpdatedAtIso w = Some u
                \<longrightarrow> \<not> dateGt (newDate u) (newDate (nowIso e1)))
          \<longrightarrow> cycle newDate c e2 (fst (cycle newDate c e1 sd))
                = (fst (cycle newDate c e1 sd), [Sleep (intervalSeconds c * 1000)]))
     \<and> (distinct (map json_id (collect newDate c e1 sd ws)) \<longrightarrow>
          (\<forall>p\<in>set (collect newDate c e1 sd ws).
             seenMap (fst (cycle newDate c e1 sd)) (json_id p) = Some (json_updatedAt p)))
     \<and> (\<forall>p\<in>set (collect newDate c e1 sd ws).
          seenMap (fst (cycle newDate c e1 sd)) (json_id p) = Some (json_updatedAt p) \<longrightarrow>
          (\<forall>q\<in>set (collect newDate c e2 (fst (cycle newDate c e1 sd)) ws).
             \<not> (json_id q = json_id p \<and> json_updatedAt q = json_updatedAt p)))"
proof (intro conjI impI ballI)
  let ?sd1 = "fst (cycle newDate c e1 sd)"
  have sd1: "?sd1 = persist sd (nowIso e1) (collect newDate c e1 sd ws)"
    using assms(1,3) by (simp add: cycle_emits)
  {
    assume h: "nowIso e1 \<noteq> []
          \<and> (\<forall>x\<in>set ws. \<forall>w u. x = Some w \<and> wfUpdatedAtIso w = Some u
                \<longrightarrow> \<not> dateGt (newDate u) (newDate (nowIso e1)))"
    have "lastSync ?sd1 = nowIso e1" by (simp add: sd1 persist_lastSync)
    with h have "collect newDate c e2 ?sd1 ws = []"
      by (intro quiet_when_nothing_later [where l = "nowIso e1"]) auto
    with assms(2) show "cycle newDate c e2 ?sd1 = (?sd1, [Sleep (intervalSeconds c * 1000)])"
      by (rule cycle_quiet)
  }
  {
    fix p
    assume "distinct (map json_id (collect newDate c e1 sd ws))"
      and "p \<in> set (collect newDate c e1 sd ws)"
    then show "seenMap ?sd1 (json_id p) = Some (json_updatedAt p)"
      by (simp add: sd1 persist_seenMap find_rev_distinct)
  }
  {
    fix p q :: payload
    assume "seenMap ?sd1 (json_id p) = Some (json_updatedAt p)"
      and q: "q \<in> set (collect newDate c e2 ?sd1 ws)"
    then show "\<not> (json_id q = json_id p \<and> json_updatedAt q = json_updatedAt p)"
      using not_reported_again [OF q] by auto
  }
qed

text \<open>
  A run for C2 as amended: the first cycle emits \<open>a\<close>; the second, on the same
  listing ten minutes later, emits nothing and leaves the static data alone.
\<close>

theorem second_cycle_witness:
  "cycle jsDate (exCfg 0)
      (exEnv [Some (exWf ''a'' ''2025-10-29T12:10:00.000Z''),
              Some (exWf ''b'' ''2025-10-29T12:05:00.000Z'')] ''2025-10-29T12:21:00.000Z'')
      (fst (cycle jsDate (exCfg 0)
              (exEnv [Some (exWf ''a'' ''2025-10-29T12:10:00.000Z''),
                      Some (exWf ''b'' ''2025-10-29T12:05:00.000Z'')] ''2025-10-29T12:11:00.000Z'')
              (exSd ''2025-10-29T12:05:00.000Z'')))
    = (fst (cycle jsDate (exCfg 0)
              (exEnv [Some (exWf ''a'' ''2025-10-29T12:10:00.000Z''),
                      Some (exWf ''b'' ''2025-10-29T12:05:00.000Z'')] ''2025-10-29T12:11:00.000Z'')
              (exSd ''2025-10-29T12:05:00.000Z'')),
       [Sleep 10000])
   \<and> seenMap (fst (cycle jsDate (exCfg 0)
              (exEnv [Some (exWf ''a'' ''2025-10-29T12:10:00.000Z''),
                      Some (exWf ''b'' ''2025-10-29T12:05:00.000Z'')] ''2025-10-29T12:11:00.000Z'')
              (exSd ''2025-10-29T12:05:00.000Z''))) ''a''
      = Some ''2025-10-29T12:10:00.000Z''"
proof -
  let ?ws = "[Some (exWf ''a'' ''2025-10-29T12:10:00.000Z''),
              Some (exWf ''b'' ''2025-10-29T12:05:00.000Z'')]"
  let ?e1 = "exEnv ?ws ''2025-10-29T12:11:00.000Z''"
  let ?e2 = "exEnv ?ws ''2025-10-29T12:21:00.000Z''"
  let ?sd = "exSd ''2025-10-29T12:05:00.000Z''"
  have l1: "getAllWorkflows ?e1 = Inr ?ws" and l2: "getAllWorkflows ?e2 = Inr ?ws"
    by (simp_all add: ex_simps)
  have b: "collect jsDate (exCfg 0) ?e1 ?sd ?ws = [exItem ''a'' ''2025-10-29T12:10:00.000Z'']"
    by (rule runA_batch)
  then have ne: "collect jsDate (exCfg 0) ?e1 ?sd ?ws \<noteq> []" by simp
  note th = second_cycle [OF l1 l2 ne]
  have h: "nowIso ?e1 \<noteq> []
          \<and> (\<forall>x\<in>set ?ws. \<forall>w u. x = Some w \<and> wfUpdatedAtIso w = Some u
                \<longrightarrow> \<not> dateGt (jsDate u) (jsDate (nowIso ?e1)))"
    by (simp add: ex_simps exWf_simps dateGt_def jsDates)
  have d: "distinct (map json_id (collect jsDate (exCfg 0) ?e1 ?sd ?ws))"
    by (simp add: b)
  have m: "exItem ''a'' ''2025-10-29T12:10:00.000Z'' \<in> set (collect jsDate (exCfg 0) ?e1 ?sd ?ws)"
    by (simp add: b)
  have p1: "cycle jsDate (exCfg 0) ?e2 (fst (cycle jsDate (exCfg 0) ?e1 ?sd))
      = (fst (cycle jsDate (exCfg 0) ?e1 ?sd), [Sleep 10000])"
    using th [THEN conjunct1, THEN mp, OF h] by (simp only: ex_simps) simp
  have p2: "seenMap (fst (cycle jsDate (exCfg 0) ?e1 ?sd)) ''a'' = Some ''2025-10-29T12:10:00.000Z''"
    using th [THEN conjunct2, THEN conjunct1, THEN mp, OF d, THEN bspec, OF m]
    by (simp only: ex_simps)
  from p1 p2 show ?thesis by (rule conjI)
qed

text \<open>
  The claim C2 as it was written fails on a listing that bears one identifier twice, with
  two update times that are both later than the clock of the trigger. The first cycle
  emits both records and leaves the second one's update time in \<open>seenMap\<close>, so the
  identifier of the first record is not mapped to its own \<open>updatedAt\<close>; the second
  cycle, on the same listing, emits the first record again.
\<close>

theorem reported_again_counterexample:
  "collect jsDate (exCfg 0)
      (exEnv [Some (exWf ''a'' ''2025-10-29T12:30:00.000Z''),
              Some (exWf ''a'' ''2025-10-29T12:20:00.000Z'')] ''2025-10-29T12:15:00.000Z'')
      (exSd ''1970-01-01T00:00:00.000Z'')
      [Some (exWf ''a'' ''2025-10-29T12:30:00.000Z''),
       Some (exWf ''a'' ''2025-10-29T12:20:00.000Z'')]
     = [exItem ''a'' ''2025-10-29T12:30:00.000Z'', exItem ''a'' ''2025-10-29T12:20:00.000Z'']
   \<and> seenMap (fst (cycle jsDate (exCfg 0)
        (exEnv [Some (exWf ''a'' ''2025-10-29T12:30:00.000Z''),
                Some (exWf ''a'' ''2025-10-29T12:20:00.000Z'')] ''2025-10-29T12:15:00.000Z'')
        (exSd ''1970-01-01T00:00:00.000Z''))) ''a'' = Some ''2025-10-29T12:20:00.000Z''
   \<and> snd (cycle jsDate (exCfg 0)
        (exEnv [Some (exWf ''a'' ''2025-10-29T12:30:00.000Z''),
                Some (exWf ''a'' ''2025-10-29T12:20:00.000Z'')] ''2025-10-29T12:15:00.000Z'')
        (fst (cycle jsDate (exCfg 0)
          (exEnv [Some (exWf ''a'' ''2025-10-29T12:30:00.000Z''),
                  Some (exWf ''a'' ''2025-10-29T12:20:00.000Z'')] ''2025-10-29T12:15:00.000Z'')
          (exSd ''1970-01-01T00:00:00.000Z''))))
     = [Emit [[exItem ''a'' ''2025-10-29T12:30:00.000Z'']], Sleep 10000]"
proof -
  let ?ws = "[Some (exWf ''a'' ''2025-10-29T12:30:00.000Z''),
              Some (exWf ''a'' ''2025-10-29T12:20:00.000Z'')]"
  let ?e = "exEnv ?ws ''2025-10-29T12:15:00.000Z''"
  let ?sd = "exSd ''1970-01-01T00:00:00.000Z''"
  let ?sd1 = "persist ?sd ''2025-10-29T12:15:00.000Z''
                [exItem ''a'' ''2025-10-29T12:30:00.000Z'', exItem ''a'' ''2025-10-29T12:20:00.000Z'']"
  have l: "getAllWorkflows ?e = Inr ?ws" by (simp add: ex_simps)
  have b1: "collect jsDate (exCfg 0) ?e ?sd ?ws
      = [exItem ''a'' ''2025-10-29T12:30:00.000Z'', exItem ''a'' ''2025-10-29T12:20:00.000Z'']"
    by (simp add: ex_eval)
  then have ne1: "collect jsDate (exCfg 0) ?e ?sd ?ws \<noteq> []" by simp
  have c1: "fst (cycle jsDate (exCfg 0) ?e ?sd) = ?sd1"
    by (simp add: cycle_emits [OF l ne1] b1 ex_simps)
  have s1: "seenMap ?sd1 ''a'' = Some ''2025-10-29T12:20:00.000Z''"
    by (simp add: persist_seenMap ex_simps)
  have b2: "collect jsDate (exCfg 0) ?e ?sd1 ?ws = [exItem ''a'' ''2025-10-29T12:30:00.000Z'']"
    by (simp add: ex_eval persist_lastSync s1)
  then have ne2: "collect jsDate (exCfg 0) ?e ?sd1 ?ws \<noteq> []" by simp
  have c2: "snd (cycle jsDate (exCfg 0) ?e ?sd1)
      = [Emit [[exItem ''a'' ''2025-10-29T12:30:00.000Z'']], Sleep 10000]"
    by (simp add: cycle_emits [OF l ne2] b2 ex_simps)
  show ?thesis by (simp only: c1 b1 s1 c2)
qed

subsection \<open>Missing and corrupted watermarks\<close>

text \<open>
  C3, as the code has it. A watermark that is absent or empty is read as the epoch string.
  A corrupted watermark (a non-empty string that is not a valid date) is not: the
  comparison with the invalid date is false, so \<open>shouldEmit\<close> returns false.
\<close>

theorem watermark_default:
  "(l = None \<or> l = Some [] \<longrightarrow>
      shouldEmit newDate \<lparr>updatedAtIso = u, lastSyncIso = l, seenAtIso = s\<rparr>
      = shouldEmit newDate \<lparr>updatedAtIso = u, lastSyncIso = Some epochIso, seenAtIso = s\<rparr>)
   \<and> (s = None \<or> s = Some [] \<longrightarrow>
      shouldEmit newDate \<lparr>updatedAtIso = u, lastSyncIso = l, seenAtIso = s\<rparr>
      = shouldEmit newDate \<lparr>updatedAtIso = u, lastSyncIso = l, seenAtIso = Some epochIso\<rparr>)
   \<and> ((\<exists>x. l = Some x \<and> x \<noteq> [] \<and> newDate x = None)
        \<or> (\<exists>x. s = Some x \<and> x \<noteq> [] \<and> newDate x = None)
        \<longrightarrow> \<not> shouldEmit newDate \<lparr>updatedAtIso = u, lastSyncIso = l, seenAtIso = s\<rparr>)"
  unfolding shouldEmit_unfold by (auto simp: orElse_def epochIso_def)

text \<open>
  A run for C3 as amended: an empty \<open>lastSync\<close> decides like the epoch string, and
  accepts; a corrupted \<open>seenAt\<close> refuses.
\<close>

theorem watermark_default_witness:
  "shouldEmit jsDate \<lparr>updatedAtIso = Some ''2025-10-29T12:10:00.000Z'',
                          lastSyncIso = Some [], seenAtIso = None\<rparr>
    = shouldEmit jsDate \<lparr>updatedAtIso = Some ''2025-10-29T12:10:00.000Z'',
                          lastSyncIso = Some epochIso, seenAtIso = None\<rparr>
   \<and> shouldEmit jsDate \<lparr>updatedAtIso = Some ''2025-10-29T12:10:00.000Z'',
                          lastSyncIso = Some [], seenAtIso = None\<rparr>
   \<and> \<not> shouldEmit jsDate \<lparr>updatedAtIso = Some ''2025-10-29T12:10:00.000Z'',
                          lastSyncIso = Some [], seenAtIso = Some ''nope''\<rparr>"
  using watermark_default [where newDate = jsDate and u = "Some ''2025-10-29T12:10:00.000Z''"
          and l = "Some []" and s = None]
        watermark_default [where newDate = jsDate and u = "Some ''2025-10-29T12:10:00.000Z''"
          and l = "Some []" and s = "Some ''nope''"]
  by (simp add: shouldEmit_def orElse_def dateGt_def epochIso_def jsDate_nope jsDate_epoch
        jsDate_1210)

text \<open>
  The claim C3 as it was written fails on a corrupted \<open>lastSync\<close>. The string
  \<open>nope\<close>, which the repository's tests use for an invalid date, makes the decision
  false; the epoch string in its place makes it true.
\<close>

theorem corrupted_watermark_counterexample:
  "jsDate ''nope'' = None
   \<and> \<not> shouldEmit jsDate \<lparr>updatedAtIso = Some ''2025-10-29T12:10:00.000Z'',
                          lastSyncIso = Some ''nope'', seenAtIso = None\<rparr>
   \<and> shouldEmit jsDate \<lparr>updatedAtIso = Some ''2025-10-29T12:10:00.000Z'',
                          lastSyncIso = Some ''1970-01-01T00:00:00.000Z'', seenAtIso = None\<rparr>"
  by (simp add: shouldEmit_def orElse_def dateGt_def epochIso_def jsDate_nope jsDate_epoch
        jsDate_1210)

subsection \<open>The state after an emission\<close>

text \<open>
  C4, as the code has it. After a cycle with a non-empty batch, the batch went to the sink
  in one call, \<open>lastSync\<close> is the wall-clock string read at the emission, and \<open>seenMap\<close>
  maps every identifier of the batch to the \<open>updatedAt\<close> of the last record of the batch
  that bears it, all other entries being as before. When the identifiers of the batch are
  pairwise distinct, that is each record's own \<open>updatedAt\<close>.
\<close>

theorem persisted_state:
  assumes "getAllWorkflows e = Inr ws" and "collect newDate c e sd ws \<noteq> []"
  shows "snd (cycle newDate c e sd)
           = [Emit [collect newDate c e sd ws], Sleep (intervalSeconds c * 1000)]
    \<and> lastSync (fst (cycle newDate c e sd)) = nowIso e
    \<and> (\<forall>k. seenMap (fst (cycle newDate c e sd)) k =
          (case find (\<lambda>p. json_id p = k) (rev (collect newDate c e sd ws)) of
             None \<Rightarrow> seenMap sd k
           | Some p \<Rightarrow> Some (json_updatedAt p)))
    \<and> (distinct (map json_id (collect newDate c e sd ws)) \<longrightarrow>
         (\<forall>p\<in>set (collect newDate c e sd ws).
            seenMap (fst (cycle newDate c e sd)) (json_id p) = Some (json_updatedAt p)))"
  using assms
  by (auto simp: cycle_emits persist_lastSync persist_seenMap find_rev_distinct)

text \<open>
  A run for C4 as amended: workflow \<open>a\<close> was updated after both watermarks, workflow
  \<open>b\<close> at the very time of \<open>lastSync\<close>. Only \<open>a\<close> is emitted; \<open>lastSync\<close>
  becomes the wall-clock string, not the update time of \<open>a\<close>, and \<open>seenMap\<close> gets the
  entry of \<open>a\<close> and none for \<open>b\<close>.
\<close>

theorem persisted_state_witness:
  "snd (cycle jsDate (exCfg 0)
          (exEnv [Some (exWf ''a'' ''2025-10-29T12:10:00.000Z''), Some (exWf ''b'' ''2025-10-29T12:05:00.000Z'')]
             ''2025-10-29T12:11:00.000Z'')
          (exSd ''2025-10-29T12:05:00.000Z''))
     = [Emit [[exItem ''a'' ''2025-10-29T12:10:00.000Z'']], Sleep 10000]
   \<and> lastSync (fst (cycle jsDate (exCfg 0)
          (exEnv [Some (exWf ''a'' ''2025-10-29T12:10:00.000Z''), Some (exWf ''b'' ''2025-10-29T12:05:00.000Z'')]
             ''2025-10-29T12:11:00.000Z'')
          (exSd ''2025-10-29T12:05:00.000Z''))) = ''2025-10-29T12:11:00.000Z''
   \<and> seenMap (fst (cycle jsDate (exCfg 0)
          (exEnv [Some (exWf ''a'' ''2025-10-29T12:10:00.000Z''), Some (exWf ''b'' ''2025-10-29T12:05:00.000Z'')]
             ''2025-10-29T12:11:00.000Z'')
          (exSd ''2025-10-29T12:05:00.000Z''))) ''a'' = Some ''2025-10-29T12:10:00.000Z''
   \<and> seenMap (fst (cycle jsDate (exCfg 0)
          (exEnv [Some (exWf ''a'' ''2025-10-29T12:10:00.000Z''), Some (exWf ''b'' ''2025-10-29T12:05:00.000Z'')]
             ''2025-10-29T12:11:00.000Z'')
          (exSd ''2025-10-29T12:05:00.000Z''))) ''b'' = None"
proof -
  let ?ws = "[Some (exWf ''a'' ''2025-10-29T12:10:00.000Z''), Some (exWf ''b'' ''2025-10-29T12:05:00.000Z'')]"
  let ?e = "exEnv ?ws ''2025-10-29T12:11:00.000Z''"
  let ?sd = "exSd ''2025-10-29T12:05:00.000Z''"
  have l: "getAllWorkflows ?e = Inr ?ws" by (simp add: ex_simps)
  have b: "collect jsDate (exCfg 0) ?e ?sd ?ws = [exItem ''a'' ''2025-10-29T12:10:00.000Z'']"
    by (rule runA_batch)
  then have ne: "collect jsDate (exCfg 0) ?e ?sd ?ws \<noteq> []" by simp
  from persisted_state [OF l ne] show ?thesis
    by (simp add: b ex_simps)
qed

text \<open>
  The claim C4 as it was written asks \<open>seenMap\<close> to map the identifier of every record of
  the batch to that record's \<open>updatedAt\<close>. With two records of one identifier and two
  update times in a batch, the later write wins: the first record's identifier is mapped
  to the second record's \<open>updatedAt\<close>.
\<close>

theorem duplicate_identifier_counterexample:
  "collect jsDate (exCfg 0)
      (exEnv [Some (exWf ''a'' ''2025-10-29T12:05:00.000Z''), Some (exWf ''a'' ''2025-10-29T12:10:00.000Z'')]
         ''2025-10-29T12:11:00.000Z'')
      (exSd ''1970-01-01T00:00:00.000Z'')
      [Some (exWf ''a'' ''2025-10-29T12:05:00.000Z''), Some (exWf ''a'' ''2025-10-29T12:10:00.000Z'')]
     = [exItem ''a'' ''2025-10-29T12:05:00.000Z'', exItem ''a'' ''2025-10-29T12:10:00.000Z'']
   \<and> json_id (exItem ''a'' ''2025-10-29T12:05:00.000Z'') = ''a''
   \<and> json_updatedAt (exItem ''a'' ''2025-10-29T12:05:00.000Z'') = ''2025-10-29T12:05:00.000Z''
   \<and> seenMap (fst (cycle jsDate (exCfg 0)
        (exEnv [Some (exWf ''a'' ''2025-10-29T12:05:00.000Z''), Some (exWf ''a'' ''2025-10-29T12:10:00.000Z'')]
           ''2025-10-29T12:11:00.000Z'')
        (exSd ''1970-01-01T00:00:00.000Z''))) ''a'' = Some ''2025-10-29T12:10:00.000Z''"
proof -
  let ?ws = "[Some (exWf ''a'' ''2025-10-29T12:05:00.000Z''), Some (exWf ''a'' ''2025-10-29T12:10:00.000Z'')]"
  let ?e = "exEnv ?ws ''2025-10-29T12:11:00.000Z''"
  let ?sd = "exSd ''1970-01-01T00:00:00.000Z''"
  have l: "getAllWorkflows ?e = Inr ?ws" by (simp add: ex_simps)
  have b: "collect jsDate (exCfg 0) ?e ?sd ?ws
      = [exItem ''a'' ''2025-10-29T12:05:00.000Z'', exItem ''a'' ''2025-10-29T12:10:00.000Z'']"
    by (simp add: ex_eval)
  then have ne: "collect jsDate (exCfg 0) ?e ?sd ?ws \<noteq> []" by simp
  show ?thesis
    by (simp add: cycle_emits [OF l ne] b persist_seenMap ex_simps)
qed

subsection \<open>A cycle that emits nothing\<close>

text \<open>
  C5. A cycle whose listing succeeds and whose batch is empty makes no call of the sink
  (its only effect is the sleep) and returns the static data as it received them.
\<close>

theorem empty_batch_frame:
  assumes "getAllWorkflows e = Inr ws" and "collect newDate c e sd ws = []"
  shows "cycle newDate c e sd = (sd, [Sleep (intervalSeconds c * 1000)])"
  using assms by (rule cycle_quiet)

text \<open>
  A run for C5: the only workflow was updated at the time of \<open>lastSync\<close>, nothing is
  emitted and the static data are the same.
\<close>

theorem empty_batch_frame_witness:
  "cycle jsDate (exCfg 0)
      (exEnv [Some (exWf ''b'' ''2025-10-29T12:05:00.000Z'')] ''2025-10-29T12:11:00.000Z'')
      (exSd ''2025-10-29T12:05:00.000Z'')
   = (exSd ''2025-10-29T12:05:00.000Z'', [Sleep 10000])"
proof -
  let ?ws = "[Some (exWf ''b'' ''2025-10-29T12:05:00.000Z'')]"
  let ?e = "exEnv ?ws ''2025-10-29T12:11:00.000Z''"
  let ?sd = "exSd ''2025-10-29T12:05:00.000Z''"
  have l: "getAllWorkflows ?e = Inr ?ws" by (simp add: ex_simps)
  have b: "collect jsDate (exCfg 0) ?e ?sd ?ws = []" by (simp add: ex_eval)
  from empty_batch_frame [OF l b] show ?thesis by (simp add: ex_simps)
qed

subsection \<open>A failing listing\<close>

text \<open>
  C6. A cycle whose listing fails makes no call of the sink, logs the error, sleeps and
  returns the static data as it received them; and the loop, unless it was closed
  meanwhile, goes on with the next pass from that same state.
\<close>

theorem listing_failure:
  assumes "getAllWorkflows e = Inl err"
  shows "cycle newDate c e sd = (sd, [LogError err, Sleep (intervalSeconds c * 1000)])
    \<and> (\<not> closeRequested e \<longrightarrow>
          loop newDate c (e # es) sd =
            (fst (loop newDate c es sd),
             LogError err # Sleep (intervalSeconds c * 1000) # snd (loop newDate c es sd)))"
  using assms by (simp add: cycle_fails split: prod.splits)

text \<open>
  A run for C6: the listing is refused in the first pass, which logs and sleeps; the
  second pass lists and emits.
\<close>

theorem listing_failure_witness:
  "cycle jsDate (exCfg 0) exFail (exSd ''1970-01-01T00:00:00.000Z'')
     = (exSd ''1970-01-01T00:00:00.000Z'', [LogError ''ECONNREFUSED'', Sleep 10000])
   \<and> snd (loop jsDate (exCfg 0)
            [exFail, exEnv [Some (exWf ''a'' ''2025-10-29T12:10:00.000Z'')] ''2025-10-29T12:11:00.000Z'']
            (exSd ''1970-01-01T00:00:00.000Z''))
     = [LogError ''ECONNREFUSED'', Sleep 10000,
        Emit [[exItem ''a'' ''2025-10-29T12:10:00.000Z'']], Sleep 10000]"
proof -
  let ?ws = "[Some (exWf ''a'' ''2025-10-29T12:10:00.000Z'')]"
  let ?e = "exEnv ?ws ''2025-10-29T12:11:00.000Z''"
  let ?sd = "exSd ''1970-01-01T00:00:00.000Z''"
  have f: "getAllWorkflows exFail = Inl ''ECONNREFUSED''" by (simp add: ex_simps)
  have l: "getAllWorkflows ?e = Inr ?ws" by (simp add: ex_simps)
  have b: "collect jsDate (exCfg 0) ?e ?sd ?ws = [exItem ''a'' ''2025-10-29T12:10:00.000Z'']"
    by (simp add: ex_eval)
  then have ne: "collect jsDate (exCfg 0) ?e ?sd ?ws \<noteq> []" by simp
  have nxt: "snd (loop jsDate (exCfg 0) [?e] ?sd)
      = [Emit [[exItem ''a'' ''2025-10-29T12:10:00.000Z'']], Sleep 10000]"
    by (simp add: cycle_emits [OF l ne] b ex_simps)
  have nc: "\<not> closeRequested exFail" by (simp add: ex_simps)
  note th = listing_failure [OF f, of jsDate "exCfg 0" ?sd "[?e]"]
  have c1: "cycle jsDate (exCfg 0) exFail ?sd = (?sd, [LogError ''ECONNREFUSED'', Sleep 10000])"
    using th [THEN conjunct1] by (simp add: ex_simps)
  have "snd (loop jsDate (exCfg 0) [exFail, ?e] ?sd)
      = LogError ''ECONNREFUSED'' # Sleep (intervalSeconds (exCfg 0) * 1000)
          # snd (loop jsDate (exCfg 0) [?e] ?sd)"
    by (simp only: th [THEN conjunct2, THEN mp, OF nc] snd_conv)
  then have c2: "snd (loop jsDate (exCfg 0) [exFail, ?e] ?sd)
      = [LogError ''ECONNREFUSED'', Sleep 10000,
        Emit [[exItem ''a'' ''2025-10-29T12:10:00.000Z'']], Sleep 10000]"
    by (simp only: nxt ex_simps) simp
  from c1 c2 show ?thesis by (rule conjI)
qed

subsection \<open>A failing detail request\<close>

text \<open>
  C7. Take an element of the listing that the scan reaches (the cap has not stopped it
  before), that has an identifier, is not excluded by name and for which the decision is
  true, with full workflows asked for and its detail request failing. Its record is in the
  batch, at the place right after the records of the elements before it, with identifier,
  name and update time and without the \<open>workflow\<close> field. And whatever the answer to that
  request, failure or response, the batch has the same records up to the \<open>workflow\<close>
  field, the records of other identifiers being the same altogether.
\<close>

theorem enrichment_failure:
  assumes "wf_id w = Some wid"
    and "\<not> excluded c (wfName w (String wid))"
    and "shouldEmit newDate \<lparr>updatedAtIso = wfUpdatedAtIso w, lastSyncIso = Some (lastSync sd),
                              seenAtIso = seenMap sd (String wid)\<rparr>"
    and "emitFullWorkflow c"
    and "requestJson e (String wid) = Inl err"
    and "maxPerCycle c \<le> 0 \<or> int (length (collect newDate c e sd pre)) < maxPerCycle c"
  shows "(\<exists>u. wfUpdatedAtIso w = Some u \<and> u \<noteq> []
            \<and> length (collect newDate c e sd pre)
                < length (collect newDate c e sd (pre @ Some w # post))
            \<and> collect newDate c e sd (pre @ Some w # post) ! length (collect newDate c e sd pre)
                = \<lparr>json_id = String wid, json_name = wfName w (String wid),
                   json_updatedAt = u, json_workflow = None\<rparr>)
     \<and> (\<forall>r. list_all2
                (\<lambda>p q. json_id q = json_id p \<and> json_name q = json_name p
                   \<and> json_updatedAt q = json_updatedAt p
                   \<and> (json_id p \<noteq> String wid \<longrightarrow> q = p))
                (collect newDate c e sd (pre @ Some w # post))
                (collect newDate c (e\<lparr>requestJson := (requestJson e)(String wid := r)\<rparr>) sd
                   (pre @ Some w # post)))"
proof -
  from assms(3) obtain u where u: "wfUpdatedAtIso w = Some u" "u \<noteq> []"
    unfolding shouldEmit_unfold by auto
  have "visit newDate c e sd (lastSync sd) (Some w)
          = Some \<lparr>json_id = String wid, json_name = wfName w (String wid),
                   json_updatedAt = u, json_workflow = None\<rparr>"
    using assms(1,2,3,5) u by (simp add: visit_Some mkPayload_failed)
  from collect_nth [OF assms(6) this, of post] u
  have "\<exists>u. wfUpdatedAtIso w = Some u \<and> u \<noteq> []
            \<and> length (collect newDate c e sd pre)
                < length (collect newDate c e sd (pre @ Some w # post))
            \<and> collect newDate c e sd (pre @ Some w # post) ! length (collect newDate c e sd pre)
                = \<lparr>json_id = String wid, json_name = wfName w (String wid),
                   json_updatedAt = u, json_workflow = None\<rparr>"
    by blast
  then show ?thesis using collect_other_response by blast
qed

text \<open>
  A run for C7: two changed workflows, every detail request timing out. The second one
  is in the batch, after the first, without a \<open>workflow\<close> field.
\<close>

theorem enrichment_failure_witness:
  "length (collect jsDate (exCfg 0) (exEnv [] ''2025-10-29T12:21:00.000Z'')
             (exSd ''1970-01-01T00:00:00.000Z'') [Some (exWf ''b'' ''2025-10-29T12:20:00.000Z'')])
     < length (collect jsDate (exCfg 0) (exEnv [] ''2025-10-29T12:21:00.000Z'')
             (exSd ''1970-01-01T00:00:00.000Z'')
             ([Some (exWf ''b'' ''2025-10-29T12:20:00.000Z'')]
                @ Some (exWf ''a'' ''2025-10-29T12:10:00.000Z'') # []))
   \<and> collect jsDate (exCfg 0) (exEnv [] ''2025-10-29T12:21:00.000Z'')
        (exSd ''1970-01-01T00:00:00.000Z'')
        ([Some (exWf ''b'' ''2025-10-29T12:20:00.000Z'')]
           @ Some (exWf ''a'' ''2025-10-29T12:10:00.000Z'') # [])
      ! length (collect jsDate (exCfg 0) (exEnv [] ''2025-10-29T12:21:00.000Z'')
             (exSd ''1970-01-01T00:00:00.000Z'') [Some (exWf ''b'' ''2025-10-29T12:20:00.000Z'')])
     = \<lparr>json_id = ''a'', json_name = ''workflow-a'',
        json_updatedAt = ''2025-10-29T12:10:00.000Z'', json_workflow = None\<rparr>"
proof -
  let ?e = "exEnv [] ''2025-10-29T12:21:00.000Z''"
  let ?sd = "exSd ''1970-01-01T00:00:00.000Z''"
  let ?w = "exWf ''a'' ''2025-10-29T12:10:00.000Z''"
  have h1: "wf_id ?w = Some (IdStr ''a'')" by (simp add: exWf_simps)
  have h2: "\<not> excluded (exCfg 0) (wfName ?w (String (IdStr ''a'')))" by (simp add: exWf_simps)
  have h3: "shouldEmit jsDate \<lparr>updatedAtIso = wfUpdatedAtIso ?w, lastSyncIso = Some (lastSync ?sd),
                              seenAtIso = seenMap ?sd (String (IdStr ''a''))\<rparr>"
    by (simp add: exWf_simps ex_simps shouldEmit_ex_1210)
  have h4: "emitFullWorkflow (exCfg 0)" by (simp add: ex_simps)
  have h5: "requestJson ?e (String (IdStr ''a'')) = Inl ''timeout''" by (simp add: ex_simps)
  have h6: "maxPerCycle (exCfg 0) \<le> 0
      \<or> int (length (collect jsDate (exCfg 0) ?e ?sd [Some (exWf ''b'' ''2025-10-29T12:20:00.000Z'')]))
          < maxPerCycle (exCfg 0)"
    by (simp add: ex_simps)
  from enrichment_failure [OF h1 h2 h3 h4 h5 h6, of "[]", THEN conjunct1]
  show ?thesis by (simp add: exWf_simps)
qed

subsection \<open>The batch cap\<close>

text \<open>
  C8. With a strictly positive \<open>maxPerCycle\<close> the batch never holds more records than the
  cap, and once a prefix of the listing has filled the batch to the cap nothing after that
  prefix is looked at: the batch is the batch of the prefix, whatever follows. With a cap of
  zero or less the batch holds the payload of every element of the listing that passes
  the skip tests and the decision, in listing order.
\<close>

theorem batch_cap:
  "(0 < maxPerCycle c \<longrightarrow>
      int (length (collect newDate c e sd ws)) \<le> maxPerCycle c
      \<and> (\<forall>pre post. int (length (collect newDate c e sd pre)) = maxPerCycle c
            \<longrightarrow> collect newDate c e sd (pre @ post) = collect newDate c e sd pre))
   \<and> (maxPerCycle c \<le> 0 \<longrightarrow>
      collect newDate c e sd ws = List.map_filter (visit newDate c e sd (lastSync sd)) ws
      \<and> (\<forall>x\<in>set ws. \<forall>p. visit newDate c e sd (lastSync sd) x = Some p
            \<longrightarrow> p \<in> set (collect newDate c e sd ws)))"
proof (intro conjI impI allI)
  assume "0 < maxPerCycle c"
  then show "int (length (collect newDate c e sd ws)) \<le> maxPerCycle c"
    by (simp add: collect_eq)
next
  fix pre post
  assume "0 < maxPerCycle c" "int (length (collect newDate c e sd pre)) = maxPerCycle c"
  then show "collect newDate c e sd (pre @ post) = collect newDate c e sd pre"
    by (rule collect_stop)
next
  assume "maxPerCycle c \<le> 0"
  then show "collect newDate c e sd ws = List.map_filter (visit newDate c e sd (lastSync sd)) ws"
    by (simp add: collect_eq)
next
  assume "maxPerCycle c \<le> 0"
  then show "\<forall>x\<in>set ws. \<forall>p. visit newDate c e sd (lastSync sd) x = Some p
            \<longrightarrow> p \<in> set (collect newDate c e sd ws)"
    by (auto simp: collect_eq set_map_filter)
qed

text \<open>
  A run for C8: of two changed workflows a cap of one lets the first through and the scan
  stops there; a cap of zero lets both through.
\<close>

theorem batch_cap_witness:
  "collect jsDate (exCfg 1) (exEnv [] ''2025-10-29T12:21:00.000Z'') (exSd ''1970-01-01T00:00:00.000Z'')
      ([Some (exWf ''a'' ''2025-10-29T12:10:00.000Z'')] @ [Some (exWf ''b'' ''2025-10-29T12:20:00.000Z'')])
     = [exItem ''a'' ''2025-10-29T12:10:00.000Z'']
   \<and> collect jsDate (exCfg 0) (exEnv [] ''2025-10-29T12:21:00.000Z'') (exSd ''1970-01-01T00:00:00.000Z'')
      [Some (exWf ''a'' ''2025-10-29T12:10:00.000Z''), Some (exWf ''b'' ''2025-10-29T12:20:00.000Z'')]
     = [exItem ''a'' ''2025-10-29T12:10:00.000Z'', exItem ''b'' ''2025-10-29T12:20:00.000Z'']"
proof -
  let ?e = "exEnv [] ''2025-10-29T12:21:00.000Z''"
  let ?sd = "exSd ''1970-01-01T00:00:00.000Z''"
  have p: "collect jsDate (exCfg 1) ?e ?sd [Some (exWf ''a'' ''2025-10-29T12:10:00.000Z'')]
      = [exItem ''a'' ''2025-10-29T12:10:00.000Z'']"
    by (simp add: ex_eval)
  have v: "List.map_filter (visit jsDate (exCfg 0) ?e ?sd (lastSync ?sd))
             [Some (exWf ''a'' ''2025-10-29T12:10:00.000Z''), Some (exWf ''b'' ''2025-10-29T12:20:00.000Z'')]
      = [exItem ''a'' ''2025-10-29T12:10:00.000Z'', exItem ''b'' ''2025-10-29T12:20:00.000Z'']"
    by (simp add: List.map_filter_simps visit_ex shouldEmit_def dateGt_def orElse_def
        epochIso_def jsDates ex_simps)
  have c: "0 < maxPerCycle (exCfg 1)" by (simp add: ex_simps)
  have len: "int (length (collect jsDate (exCfg 1) ?e ?sd [Some (exWf ''a'' ''2025-10-29T12:10:00.000Z'')]))
      = maxPerCycle (exCfg 1)"
    by (simp add: p ex_simps)
  from batch_cap [where c = "exCfg 1" and newDate = jsDate and e = ?e and sd = ?sd,
      THEN conjunct1, THEN mp, OF c, THEN conjunct2, THEN spec, THEN spec, THEN mp, OF len]
  have "collect jsDate (exCfg 1) ?e ?sd
          ([Some (exWf ''a'' ''2025-10-29T12:10:00.000Z'')] @ [Some (exWf ''b'' ''2025-10-29T12:20:00.000Z'')])
        = collect jsDate (exCfg 1) ?e ?sd [Some (exWf ''a'' ''2025-10-29T12:10:00.000Z'')]" .
  moreover have c0: "maxPerCycle (exCfg 0) \<le> 0" by (simp add: ex_simps)
  from batch_cap [where c = "exCfg 0" and newDate = jsDate and e = ?e and sd = ?sd
      and ws = "[Some (exWf ''a'' ''2025-10-29T12:10:00.000Z''), Some (exWf ''b'' ''2025-10-29T12:20:00.000Z'')]",
      THEN conjunct2, THEN mp, OF c0, THEN conjunct1]
  have "collect jsDate (exCfg 0) ?e ?sd
          [Some (exWf ''a'' ''2025-10-29T12:10:00.000Z''), Some (exWf ''b'' ''2025-10-29T12:20:00.000Z'')]
        = [exItem ''a'' ''2025-10-29T12:10:00.000Z'', exItem ''b'' ''2025-10-29T12:20:00.000Z'']"
    by (simp only: v)
  ultimately show ?thesis by (simp only: p)
qed

subsection \<open>The order of lastSync over the passes\<close>

text \<open>
  C9. A cycle leaves \<open>lastSync\<close> as it was or sets it to the wall-clock string of the
  emission. The state the loop ends in is the last of the states after each pass. If the
  clock does not go backwards, that is, if the initial \<open>lastSync\<close> (the epoch or an
  earlier reading of the clock) and the readings of the successive passes are in
  non-decreasing order as dates, then so are the values of \<open>lastSync\<close> after each pass:
  each is equal to, or not earlier than, every one before it.
\<close>

theorem lastSync_monotone:
  "(lastSync (fst (cycle newDate c e sd)) = lastSync sd
      \<or> lastSync (fst (cycle newDate c e sd)) = nowIso e)
   \<and> fst (loop newDate c es sd) = last (sd # trajectory newDate c es sd)
   \<and> (sorted_wrt (notEarlier newDate) (lastSync sd # map nowIso es) \<longrightarrow>
        sorted_wrt (\<lambda>a b. a = b \<or> notEarlier newDate a b)
          (map lastSync (sd # trajectory newDate c es sd)))"
  using cycle_lastSync [of newDate c e sd] loop_trajectory [of newDate c es sd]
    trajectory_sorted [of newDate sd es c]
  by blast

text \<open>
  A run for C9: three passes, the second with a failing listing, a clock that moves
  forward. \<open>lastSync\<close> goes from the epoch to the first reading, stays, and goes to the
  third reading.
\<close>

theorem lastSync_monotone_witness:
  "sorted_wrt (notEarlier jsDate)
     (lastSync (exSd ''1970-01-01T00:00:00.000Z'')
      # map nowIso [exEnv [Some (exWf ''a'' ''2025-10-29T12:10:00.000Z'')] ''2025-10-29T12:11:00.000Z'',
                    exFail,
                    exEnv [Some (exWf ''a'' ''2025-10-29T12:20:00.000Z'')] ''2025-10-29T12:21:00.000Z''])
   \<and> sorted_wrt (\<lambda>a b. a = b \<or> notEarlier jsDate a b)
       (map lastSync
          (exSd ''1970-01-01T00:00:00.000Z''
           # trajectory jsDate (exCfg 0)
               [exEnv [Some (exWf ''a'' ''2025-10-29T12:10:00.000Z'')] ''2025-10-29T12:11:00.000Z'',
                exFail,
                exEnv [Some (exWf ''a'' ''2025-10-29T12:20:00.000Z'')] ''2025-10-29T12:21:00.000Z'']
               (exSd ''1970-01-01T00:00:00.000Z'')))
   \<and> map lastSync
       (trajectory jsDate (exCfg 0)
          [exEnv [Some (exWf ''a'' ''2025-10-29T12:10:00.000Z'')] ''2025-10-29T12:11:00.000Z'',
           exFail,
           exEnv [Some (exWf ''a'' ''2025-10-29T12:20:00.000Z'')] ''2025-10-29T12:21:00.000Z'']
          (exSd ''1970-01-01T00:00:00.000Z''))
     = [''2025-10-29T12:11:00.000Z'', ''2025-10-29T12:11:00.000Z'', ''2025-10-29T12:21:00.000Z'']"
proof -
  let ?es = "[exEnv [Some (exWf ''a'' ''2025-10-29T12:10:00.000Z'')] ''2025-10-29T12:11:00.000Z'',
                    exFail,
                    exEnv [Some (exWf ''a'' ''2025-10-29T12:20:00.000Z'')] ''2025-10-29T12:21:00.000Z'']"
  let ?sd = "exSd ''1970-01-01T00:00:00.000Z''"
  have h: "sorted_wrt (notEarlier jsDate) (lastSync ?sd # map nowIso ?es)"
    by (simp add: ex_simps exFail_def notEarlier_ex)
  from lastSync_monotone [where newDate = jsDate and c = "exCfg 0" and es = ?es and sd = ?sd,
      THEN conjunct2, THEN conjunct2, THEN mp, OF h]
  have s: "sorted_wrt (\<lambda>a b. a = b \<or> notEarlier jsDate a b)
             (map lastSync (?sd # trajectory jsDate (exCfg 0) ?es ?sd))" .
  from h s trajectory_ex show ?thesis by (intro conjI)
qed

subsection \<open>Decisions within one cycle\<close>

text \<open>
  C10, as the code has it. The decision on an element the scan reaches is
  \<open>shouldEmit\<close> on its update time, the \<open>lastSync\<close> of the start of the cycle and the
  \<open>seenMap\<close> entry of the start of the cycle: what the elements before it were does not
  enter. In particular, two elements with the same identifier and the same update time,
  neither excluded by name, for which the decision is true, both have their record in the
  batch, provided the cap has not stopped the scan before the second one.
\<close>

theorem decisions_at_cycle_start:
  "((maxPerCycle c \<le> 0 \<or> int (length (collect newDate c e sd pre)) < maxPerCycle c)
      \<and> wf_id w = Some wid \<longrightarrow>
      collect newDate c e sd (pre @ [Some w]) =
        collect newDate c e sd pre @
          (if \<not> excluded c (wfName w (String wid))
              \<and> shouldEmit newDate \<lparr>updatedAtIso = wfUpdatedAtIso w,
                                     lastSyncIso = Some (lastSync sd),
                                     seenAtIso = seenMap sd (String wid)\<rparr>
           then [mkPayload c e (String wid) (wfName w (String wid))
                   (case wfUpdatedAtIso w of None \<Rightarrow> [] | Some u \<Rightarrow> u)]
           else []))
   \<and> ((maxPerCycle c \<le> 0
          \<or> int (length (collect newDate c e sd (pre @ Some w1 # mid))) < maxPerCycle c)
        \<and> wf_id w1 = Some wid \<and> wf_id w2 = Some wid
        \<and> wfUpdatedAtIso w1 = Some u \<and> wfUpdatedAtIso w2 = Some u
        \<and> \<not> excluded c (wfName w1 (String wid)) \<and> \<not> excluded c (wfName w2 (String wid))
        \<and> shouldEmit newDate \<lparr>updatedAtIso = Some u, lastSyncIso = Some (lastSync sd),
                               seenAtIso = seenMap sd (String wid)\<rparr>
      \<longrightarrow>
        length (collect newDate c e sd pre)
          < length (collect newDate c e sd (pre @ Some w1 # mid))
        \<and> length (collect newDate c e sd (pre @ Some w1 # mid))
          < length (collect newDate c e sd (pre @ Some w1 # mid @ Some w2 # post))
        \<and> collect newDate c e sd (pre @ Some w1 # mid @ Some w2 # post)
            ! length (collect newDate c e sd pre)
          = mkPayload c e (String wid) (wfName w1 (String wid)) u
        \<and> collect newDate c e sd (pre @ Some w1 # mid @ Some w2 # post)
            ! length (collect newDate c e sd (pre @ Some w1 # mid))
          = mkPayload c e (String wid) (wfName w2 (String wid)) u)"
proof (intro conjI impI)
  assume a: "(maxPerCycle c \<le> 0 \<or> int (length (collect newDate c e sd pre)) < maxPerCycle c)
      \<and> wf_id w = Some wid"
  then have "maxPerCycle c \<le> 0 \<or> int (length (collect newDate c e sd pre)) < maxPerCycle c"
    by simp
  from collect_snoc [OF this, of "Some w"] a
  show "collect newDate c e sd (pre @ [Some w]) =
        collect newDate c e sd pre @
          (if \<not> excluded c (wfName w (String wid))
              \<and> shouldEmit newDate \<lparr>updatedAtIso = wfUpdatedAtIso w,
                                     lastSyncIso = Some (lastSync sd),
                                     seenAtIso = seenMap sd (String wid)\<rparr>
           then [mkPayload c e (String wid) (wfName w (String wid))
                   (case wfUpdatedAtIso w of None \<Rightarrow> [] | Some u \<Rightarrow> u)]
           else [])"
    by (simp add: visit_Some)
next
  assume a: "(maxPerCycle c \<le> 0
          \<or> int (length (collect newDate c e sd (pre @ Some w1 # mid))) < maxPerCycle c)
        \<and> wf_id w1 = Some wid \<and> wf_id w2 = Some wid
        \<and> wfUpdatedAtIso w1 = Some u \<and> wfUpdatedAtIso w2 = Some u
        \<and> \<not> excluded c (wfName w1 (String wid)) \<and> \<not> excluded c (wfName w2 (String wid))
        \<and> shouldEmit newDate \<lparr>updatedAtIso = Some u, lastSyncIso = Some (lastSync sd),
                               seenAtIso = seenMap sd (String wid)\<rparr>"
  let ?pre2 = "pre @ Some w1 # mid"
  from a have r2: "maxPerCycle c \<le> 0
          \<or> int (length (collect newDate c e sd ?pre2)) < maxPerCycle c" by simp
  then have r1: "maxPerCycle c \<le> 0 \<or> int (length (collect newDate c e sd pre)) < maxPerCycle c"
    by (rule reached_prefix)
  from a have v1: "visit newDate c e sd (lastSync sd) (Some w1)
      = Some (mkPayload c e (String wid) (wfName w1 (String wid)) u)"
    by (simp add: visit_Some)
  from a have v2: "visit newDate c e sd (lastSync sd) (Some w2)
      = Some (mkPayload c e (String wid) (wfName w2 (String wid)) u)"
    by (simp add: visit_Some)
  from collect_nth [OF r1 v1, of mid]
  have k1: "length (collect newDate c e sd pre) < length (collect newDate c e sd ?pre2)"
    by simp
  from collect_nth [OF r1 v1, of "mid @ Some w2 # post"]
  have n1: "collect newDate c e sd (pre @ Some w1 # mid @ Some w2 # post)
            ! length (collect newDate c e sd pre)
          = mkPayload c e (String wid) (wfName w1 (String wid)) u"
    by simp
  from collect_nth [OF r2 v2, of post]
  have n2: "length (collect newDate c e sd ?pre2)
          < length (collect newDate c e sd (pre @ Some w1 # mid @ Some w2 # post))
        \<and> collect newDate c e sd (pre @ Some w1 # mid @ Some w2 # post)
            ! length (collect newDate c e sd ?pre2)
          = mkPayload c e (String wid) (wfName w2 (String wid)) u"
    by simp
  from k1 show "length (collect newDate c e sd pre)
          < length (collect newDate c e sd (pre @ Some w1 # mid))" .
  from n2 show "length (collect newDate c e sd (pre @ Some w1 # mid))
          < length (collect newDate c e sd (pre @ Some w1 # mid @ Some w2 # post))" by simp
  from n1 show "collect newDate c e sd (pre @ Some w1 # mid @ Some w2 # post)
            ! length (collect newDate c e sd pre)
          = mkPayload c e (String wid) (wfName w1 (String wid)) u" .
  from n2 show "collect newDate c e sd (pre @ Some w1 # mid @ Some w2 # post)
            ! length (collect newDate c e sd (pre @ Some w1 # mid))
          = mkPayload c e (String wid) (wfName w2 (String wid)) u" by simp
qed

text \<open>
  A run for C10 as amended: the same workflow listed twice, no cap. Both occurrences are
  in the batch.
\<close>

theorem decisions_at_cycle_start_witness:
  "length (collect jsDate (exCfg 0) (exEnv [] ''2025-10-29T12:11:00.000Z'')
             (exSd ''1970-01-01T00:00:00.000Z'') [])
     < length (collect jsDate (exCfg 0) (exEnv [] ''2025-10-29T12:11:00.000Z'')
             (exSd ''1970-01-01T00:00:00.000Z'')
             ([] @ Some (exWf ''a'' ''2025-10-29T12:10:00.000Z'') # []))
   \<and> length (collect jsDate (exCfg 0) (exEnv [] ''2025-10-29T12:11:00.000Z'')
             (exSd ''1970-01-01T00:00:00.000Z'')
             ([] @ Some (exWf ''a'' ''2025-10-29T12:10:00.000Z'') # []))
     < length (collect jsDate (exCfg 0) (exEnv [] ''2025-10-29T12:11:00.000Z'')
             (exSd ''1970-01-01T00:00:00.000Z'')
             ([] @ Some (exWf ''a'' ''2025-10-29T12:10:00.000Z'') # []
                 @ Some (exWf ''a'' ''2025-10-29T12:10:00.000Z'') # []))
   \<and> collect jsDate (exCfg 0) (exEnv [] ''2025-10-29T12:11:00.000Z'')
        (exSd ''1970-01-01T00:00:00.000Z'')
        ([] @ Some (exWf ''a'' ''2025-10-29T12:10:00.000Z'') # []
            @ Some (exWf ''a'' ''2025-10-29T12:10:00.000Z'') # [])
      ! length (collect jsDate (exCfg 0) (exEnv [] ''2025-10-29T12:11:00.000Z'')
             (exSd ''1970-01-01T00:00:00.000Z'') [])
     = exItem ''a'' ''2025-10-29T12:10:00.000Z''
   \<and> collect jsDate (exCfg 0) (exEnv [] ''2025-10-29T12:11:00.000Z'')
        (exSd ''1970-01-01T00:00:00.000Z'')
        ([] @ Some (exWf ''a'' ''2025-10-29T12:10:00.000Z'') # []
            @ Some (exWf ''a'' ''2025-10-29T12:10:00.000Z'') # [])
      ! length (collect jsDate (exCfg 0) (exEnv [] ''2025-10-29T12:11:00.000Z'')
             (exSd ''1970-01-01T00:00:00.000Z'')
             ([] @ Some (exWf ''a'' ''2025-10-29T12:10:00.000Z'') # []))
     = exItem ''a'' ''2025-10-29T12:10:00.000Z''"
proof -
  let ?e = "exEnv [] ''2025-10-29T12:11:00.000Z''"
  let ?sd = "exSd ''1970-01-01T00:00:00.000Z''"
  let ?w = "exWf ''a'' ''2025-10-29T12:10:00.000Z''"
  have h: "(maxPerCycle (exCfg 0) \<le> 0
          \<or> int (length (collect jsDate (exCfg 0) ?e ?sd ([] @ Some ?w # []))) < maxPerCycle (exCfg 0))
        \<and> wf_id ?w = Some (IdStr ''a'') \<and> wf_id ?w = Some (IdStr ''a'')
        \<and> wfUpdatedAtIso ?w = Some ''2025-10-29T12:10:00.000Z''
        \<and> wfUpdatedAtIso ?w = Some ''2025-10-29T12:10:00.000Z''
        \<and> \<not> excluded (exCfg 0) (wfName ?w (String (IdStr ''a'')))
        \<and> \<not> excluded (exCfg 0) (wfName ?w (String (IdStr ''a'')))
        \<and> shouldEmit jsDate \<lparr>updatedAtIso = Some ''2025-10-29T12:10:00.000Z'',
                               lastSyncIso = Some (lastSync ?sd),
                               seenAtIso = seenMap ?sd (String (IdStr ''a''))\<rparr>"
    by (simp add: exWf_simps ex_simps shouldEmit_ex_1210)
  have m: "mkPayload (exCfg 0) ?e (String (IdStr ''a'')) (wfName ?w (String (IdStr ''a'')))
             ''2025-10-29T12:10:00.000Z'' = exItem ''a'' ''2025-10-29T12:10:00.000Z''"
    by (simp only: exWf_simps mkPayload_ex)
  from decisions_at_cycle_start [where newDate = jsDate and c = "exCfg 0" and e = ?e and sd = ?sd
      and pre = "[]" and ?w1.0 = ?w and mid = "[]" and ?w2.0 = ?w and post = "[]"
      and wid = "IdStr ''a''" and u = "''2025-10-29T12:10:00.000Z''",
      THEN conjunct2, THEN mp, OF h]
  show ?thesis by (simp only: m)
qed

text \<open>
  The claim C10 as it was written has both occurrences of a twice-listed changed workflow
  in the batch. With a cap of one, the scan stops after the first.
\<close>

theorem cap_cuts_duplicate_counterexample:
  "shouldEmit jsDate \<lparr>updatedAtIso = Some ''2025-10-29T12:10:00.000Z'',
                      lastSyncIso = Some ''1970-01-01T00:00:00.000Z'', seenAtIso = None\<rparr>
   \<and> collect jsDate (exCfg 1) (exEnv [] ''2025-10-29T12:11:00.000Z'')
        (exSd ''1970-01-01T00:00:00.000Z'')
        [Some (exWf ''a'' ''2025-10-29T12:10:00.000Z''),
         Some (exWf ''a'' ''2025-10-29T12:10:00.000Z'')]
     = [exItem ''a'' ''2025-10-29T12:10:00.000Z'']"
  by (simp add: ex_eval)

end
